theory Spec2Isabelle
  imports Main "HOL-Library.Multiset"
begin

unbundle bit_operations_syntax

section \<open>Python string primitives used by setup.py\<close>

text \<open>
  Strings are lists of 8-bit characters (code points below 256). The functions below are
  the library calls of the script: \<open>str.strip\<close>, \<open>str.lstrip\<close>,
  \<open>str.startswith\<close>, \<open>str.replace(old, new, 1)\<close>, \<open>str.split(sep)\<close> for a
  one-character separator, \<open>str.lower\<close>, the substring test \<open>a in b\<close> and
  \<open>' '.join\<close>.
\<close>

definition isspace :: "char \<Rightarrow> bool" where
  "isspace c = (c \<in> set [CHR 0x09, CHR 0x0A, CHR 0x0B, CHR 0x0C, CHR 0x0D, CHR 0x1C,
                          CHR 0x1D, CHR 0x1E, CHR 0x1F, CHR 0x20, CHR 0x85, CHR 0xA0])"

definition lstrip :: "string \<Rightarrow> string" where
  "lstrip s = dropWhile isspace s"

definition rstrip :: "string \<Rightarrow> string" where
  "rstrip s = rev (dropWhile isspace (rev s))"

definition strip :: "string \<Rightarrow> string" where
  "strip s = rstrip (lstrip s)"

definition startswith :: "string \<Rightarrow> string \<Rightarrow> bool" where
  "startswith s p = (take (length p) s = p)"

fun replace1 :: "string \<Rightarrow> string \<Rightarrow> string \<Rightarrow> string" where
  "replace1 [] old new = (if old = [] then new else [])"
| "replace1 (c # cs) old new =
     (if startswith (c # cs) old then new @ drop (length old) (c # cs)
      else c # replace1 cs old new)"

fun contains :: "string \<Rightarrow> string \<Rightarrow> bool" where
  "contains [] sub = (sub = [])"
| "contains (c # cs) sub = (startswith (c # cs) sub \<or> contains cs sub)"

fun split :: "string \<Rightarrow> char \<Rightarrow> string list" where
  "split [] sep = [[]]"
| "split (c # cs) sep =
     (if c = sep then [] # split cs sep
      else (case split cs sep of [] \<Rightarrow> [[c]] | w # ws \<Rightarrow> (c # w) # ws))"

text \<open>
  Lower case of a code point below 256: the letters \<open>A\<close> to \<open>Z\<close> and the Latin-1
  capitals (192 to 222 without the multiplication sign 215) move up by 32.
\<close>

definition lower_char :: "char \<Rightarrow> char" where
  "lower_char c =
     (let n = (of_char c :: nat)
      in if (65 \<le> n \<and> n \<le> 90) \<or> (192 \<le> n \<and> n \<le> 222 \<and> n \<noteq> 215)
         then char_of (n + 32) else c)"

definition lower :: "string \<Rightarrow> string" where
  "lower s = map lower_char s"

fun join :: "string \<Rightarrow> string list \<Rightarrow> string" where
  "join sep [] = []"
| "join sep [x] = x"
| "join sep (x # y # ys) = x @ sep @ join sep (y # ys)"

section \<open>Constants of the script\<close>

definition SCRIPT_NAME :: string where
  "SCRIPT_NAME = ''YUBIKEY_SETUP''"

text \<open>\<open>TMP_DIR\<close> depends on the random token drawn at import time.\<close>

definition TMP_DIR :: "string \<Rightarrow> string" where
  "TMP_DIR token = ''/tmp/'' @ SCRIPT_NAME @ ''_'' @ token"

definition SUPPORTED_OS :: "string list" where
  "SUPPORTED_OS = split ''linux'' CHR '' ''"

definition RECOMENDED_DISTROS :: "string list" where
  "RECOMENDED_DISTROS = split ''tails'' CHR '' ''"

definition CL_NORM :: string where "CL_NORM = CHR 0x1B # ''[0m''"
definition CL_YELLOW :: string where "CL_YELLOW = CHR 0x1B # ''[93m''"
definition CL_GREEN :: string where "CL_GREEN = CHR 0x1B # ''[92m''"
definition CL_RED :: string where "CL_RED = CHR 0x1B # ''[91m''"
definition CL_GREY :: string where "CL_GREY = CHR 0x1B # ''[90m''"

definition YES :: string where "YES = ''Yes''"
definition NO :: string where "NO = ''No''"

definition YES_OR_NO :: string where
  "YES_OR_NO = [CHR 0x27] @ CL_GREEN @ YES @ CL_NORM @ [CHR 0x27] @ '' or '' @ [CHR 0x27]
               @ CL_RED @ NO @ CL_NORM @ [CHR 0x27]"

definition WRONG_OS_MSG :: string where
  "WRONG_OS_MSG = CL_RED @ ''Srry, your os is not currently supported by script'' @ CL_NORM"

definition RECOMMEND_OS_MSG :: string where
  "RECOMMEND_OS_MSG =
     CL_YELLOW @ ''It is strongly recommended to use hardened OS distros to work with this script.''
     @ [CHR 0x0A] @ ''Such as '' @ join '' or '' RECOMENDED_DISTROS @ ''.'' @ CL_NORM"

definition BEGIN_MSG :: string where
  "BEGIN_MSG = [CHR 0x0A] @ ''<< TODO BEGIN MSG >>'' @ [CHR 0x0A]"

section \<open>The package registry\<close>

text \<open>
  A command set is \<open>None\<close>, one string, or a tuple of strings; an availability check is
  a command, or a command with the exit code it must return.
\<close>

datatype cmds = CmdsNone | CmdsStr string | CmdsSeq "string list"

datatype check = Check string | CheckCode string int

record pkg =
  PKGS_NAME :: string
  PKGS_COMMENT :: string
  PKGS_CHECK :: check
  PKGS_ISNTALL :: "(string \<times> cmds) list"

definition PKGS :: "string \<Rightarrow> pkg list" where
  "PKGS tmp =
    [ \<lparr> PKGS_NAME = ''gnupg'',
        PKGS_COMMENT = ''GNU Privacy Guard'',
        PKGS_CHECK = Check ''gpg --version'',
        PKGS_ISNTALL = [] \<rparr>,
      \<lparr> PKGS_NAME = ''argon2'',
        PKGS_COMMENT = ''memory & CPU hard hash function'',
        PKGS_CHECK = CheckCode ''argon2 -h'' 1,
        PKGS_ISNTALL = [(''tails'', CmdsStr ''sudo apt -qq install -y argon2'')] \<rparr>,
      \<lparr> PKGS_NAME = ''ykman'',
        PKGS_COMMENT = ''yubikey cli & gui manager'',
        PKGS_CHECK = Check ''ykman --help'',
        PKGS_ISNTALL = [(''tails'', CmdsSeq
          [ ''# Adding yubico maintaners GPG keys'',
            ''gpg --quiet --keyserver hkps://keys.openpgp.org --receive-keys 9E885C0302F9BB9167529C2D5CBA11E6ADC7BCD1'',
            ''gpg --quiet --keyserver hkps://keys.openpgp.org --receive-keys 57a9deed4c6d962a923bb691816f3ed99921835e'',
            ''# Download ykman AppImage'',
            ''mkdir -p '' @ tmp @ ''/ykman'',
            ''torsocks wget -c -t 0 --retry-connrefused --quiet --show-progress -O '' @ tmp
              @ ''/ykman/yubikey-manager-qt.AppImage https://developers.yubico.com/yubikey-manager-qt/Releases/yubikey-manager-qt-latest-linux.AppImage'',
            ''torsocks wget -c -t 0 --retry-connrefused --quiet --show-progress -O '' @ tmp
              @ ''/ykman/yubikey-manager-qt.AppImage.sig https://developers.yubico.com/yubikey-manager-qt/Releases/yubikey-manager-qt-latest-linux.AppImage.sig'',
            ''# Verify downloaded image'',
            ''gpg --quiet --verify '' @ tmp @ ''/ykman/yubikey-manager-qt.AppImage.sig'',
            ''# Make image executable'',
            ''chmod +x '' @ tmp @ ''/ykman/yubikey-manager-qt.AppImage'',
            ''# Move image to /bin'',
            ''sudo mv '' @ tmp @ ''/ykman/yubikey-manager-qt.AppImage /bin/ykman'' ])] \<rparr> ]"

definition PRE_INSTALL :: "(string \<times> cmds) list" where
  "PRE_INSTALL = [(''tails'', CmdsStr ''sudo apt -q update -y '')]"

section \<open>The process and its host\<close>

text \<open>
  Exceptions are values. Standard input is the sequence of things the user does at a
  prompt: enter a line or press Ctrl+C; at its end \<open>input\<close> raises \<open>EOFError\<close>.
  An interrupt reaches the script at a prompt only, and the commands it runs do not read
  from its standard input.
\<close>

datatype exn = KeyboardInterrupt | EOFError | FileNotFoundError | FileExistsError
  | NotADirectoryError | OSError | KeyError | TypeError | IndexError

datatype key = Line string | CtrlC

text \<open>
  What the process does to the outside, in order: a line printed, a prompt shown by
  \<open>input\<close>, a command handed to a shell (with the \<open>interactive\<close> flag and the exit
  code it came back with).
\<close>

datatype event = Print string | Prompt string | Exec string bool int

text \<open>
  The state: what is left of standard input, what was done so far, the file system and the
  rest of the machine, and the two things the script remembers between calls, the global
  \<open>PRE_INSTALL_RUNNED\<close> and the result \<open>lru_cache\<close> keeps for \<open>get_os_info\<close>.
\<close>

datatype node = File | Dir int

type_synonym files = "(string \<times> node) list"

record 'w state =
  stdin :: "key list"
  trace :: "event list"
  fs :: files
  world :: 'w
  PRE_INSTALL_RUNNED :: bool
  os_info_cache :: "(string \<times> string) option"

text \<open>
  The host is what the script cannot decide: what a shell command does to the file system
  and the rest of the machine and what it returns (exit code, stdout, stderr), the answers
  of \<open>platform.system()\<close>, \<open>platform.version()\<close> and \<open>os.getlogin()\<close>, the token of
  \<open>secrets.token_urlsafe\<close>, and the umask of the process.
\<close>

record 'w host =
  sh :: "string \<Rightarrow> bool \<Rightarrow> files \<times> 'w \<Rightarrow> (int \<times> string \<times> string) \<times> files \<times> 'w"
  system :: string
  version :: string
  getlogin :: "exn + string"
  token :: string
  umask :: int

section \<open>Prompts\<close>

definition print :: "string \<Rightarrow> 'w state \<Rightarrow> 'w state" where
  "print s st = st\<lparr>trace := trace st @ [Print s]\<rparr>"

definition input :: "string \<Rightarrow> 'w state \<Rightarrow> (exn + string) \<times> 'w state" where
  "input prompt st =
     (case stdin st of
        [] \<Rightarrow> (Inl EOFError, st\<lparr>trace := trace st @ [Prompt prompt]\<rparr>)
      | CtrlC # rest \<Rightarrow>
          (Inl KeyboardInterrupt, st\<lparr>stdin := rest, trace := trace st @ [Prompt prompt]\<rparr>)
      | Line s # rest \<Rightarrow>
          (Inr s, st\<lparr>stdin := rest, trace := trace st @ [Prompt prompt]\<rparr>))"

lemma input_Inr:
  "input p st = (Inr s, st') \<Longrightarrow>
     stdin st = Line s # stdin st' \<and> st' = st\<lparr>stdin := stdin st', trace := trace st @ [Prompt p]\<rparr>"
  by (auto simp: input_def split: list.splits key.splits)

lemma stdin_print [simp]: "stdin (print s st) = stdin st"
  by (simp add: print_def)

definition ask_continue :: "'w state \<Rightarrow> (exn + unit) \<times> 'w state" where
  "ask_continue st =
     (case input (''Press '' @ CL_GREEN @ ''Enter'' @ CL_NORM @ '' when you are ready: '') st of
        (Inl e, st1) \<Rightarrow> (Inl e, st1)
      | (Inr _, st1) \<Rightarrow> (Inr (), st1))"

text \<open>The prompt \<open>ask\<close> shows, and the message it prints after an answer it rejects.\<close>

definition ask_prompt :: "string \<Rightarrow> string" where
  "ask_prompt prompt = prompt @ '' ('' @ YES_OR_NO @ ''): ''"

definition PLEASE_TYPE :: string where
  "PLEASE_TYPE = [CHR 0x09] @ CL_YELLOW @ ''Please type '' @ YES_OR_NO"

function ask :: "string \<Rightarrow> 'w state \<Rightarrow> (exn + bool) \<times> 'w state" where
  "ask prompt st =
     (case input (ask_prompt prompt) st of
        (Inl e, st1) \<Rightarrow> (Inl e, st1)
      | (Inr inp, st1) \<Rightarrow>
          if inp = YES then (Inr True, st1)
          else if inp = NO then (Inr False, st1)
          else ask prompt (print PLEASE_TYPE st1))"
  by pat_completeness auto
termination
  by (relation "measure (\<lambda>(p, st). length (stdin st))") (auto dest!: input_Inr [OF sym])

declare ask.simps [simp del]

fun ask_execute_prompt :: "string list \<Rightarrow> string \<Rightarrow> string" where
  "ask_execute_prompt [] prompt = prompt"
| "ask_execute_prompt (cmd # cmds) prompt =
     (if startswith (lstrip cmd) ''#''
      then ask_execute_prompt cmds (prompt @ [CHR 0x09] @ CL_GREY @ cmd @ CL_NORM @ [CHR 0x0A])
      else if startswith (lstrip cmd) ''sudo ''
      then ask_execute_prompt cmds
             (prompt @ [CHR 0x09] @ CL_YELLOW @ ''sudo'' @ CL_NORM @ '' ''
                @ replace1 cmd ''sudo '' [] @ [CHR 0x0A])
      else ask_execute_prompt cmds (prompt @ [CHR 0x09] @ cmd @ [CHR 0x0A]))"

definition ask_execute_seq :: "string list \<Rightarrow> 'w state \<Rightarrow> (exn + bool) \<times> 'w state" where
  "ask_execute_seq cmds st =
     ask (ask_execute_prompt cmds (''Those commands will be executed:'' @ [CHR 0x0A])
            @ [CHR 0x0A] @ ''Do you want to execute them?'') st"

fun ask_execute :: "cmds \<Rightarrow> 'w state \<Rightarrow> (exn + bool) \<times> 'w state" where
  "ask_execute CmdsNone st = (Inr True, st)"
| "ask_execute (CmdsStr cmd) st = ask_execute_seq [cmd] st"
| "ask_execute (CmdsSeq cmds) st = ask_execute_seq cmds st"

section \<open>The command runner\<close>

text \<open>
  \<open>run_cmd\<close> hands the command to the host's shell and waits. The trace keeps what was
  run and the code it returned. Captured output is returned only when the call is not
  interactive.
\<close>

fun run_cmd :: "'w host \<Rightarrow> string option \<Rightarrow> bool \<Rightarrow> 'w state
                \<Rightarrow> (int \<times> string \<times> string) \<times> 'w state" where
  "run_cmd h None interactive st = ((0, [], []), st)"
| "run_cmd h (Some cmd) interactive st =
     (case sh h cmd interactive (fs st, world st) of
        ((code, out, err), (fs', world')) \<Rightarrow>
          ((code, if interactive then [] else out, if interactive then [] else err),
           st\<lparr>fs := fs', world := world', trace := trace st @ [Exec cmd interactive code]\<rparr>))"

fun run_cmds_loop :: "'w host \<Rightarrow> string list \<Rightarrow> bool \<Rightarrow> 'w state \<Rightarrow> int \<times> 'w state" where
  "run_cmds_loop h [] interactive st = (0, st)"
| "run_cmds_loop h (cmd # cmds) interactive st =
     (if startswith (strip cmd) ''#'' then run_cmds_loop h cmds interactive st
      else (case run_cmd h (Some cmd) interactive st of
              ((code, _, _), st1) \<Rightarrow>
                if code \<noteq> 0 then (code, st1) else run_cmds_loop h cmds interactive st1))"

fun run_cmds :: "'w host \<Rightarrow> cmds \<Rightarrow> bool \<Rightarrow> 'w state \<Rightarrow> int \<times> 'w state" where
  "run_cmds h CmdsNone interactive st = (0, st)"
| "run_cmds h (CmdsStr cmd) interactive st = run_cmds_loop h [cmd] interactive st"
| "run_cmds h (CmdsSeq cmds) interactive st = run_cmds_loop h cmds interactive st"

section \<open>The file system and the secure delete\<close>

text \<open>
  The file system is a table from absolute paths to nodes; a directory carries its
  permission bits. Only what the script asks of it is modelled: \<open>os.path.isdir\<close>,
  \<open>os.path.join\<close>, \<open>os.makedirs\<close>, the directory listing behind \<open>os.walk\<close> and
  \<open>shutil.rmtree\<close>. There are no symbolic links, and no operation fails for lack of
  permission.
\<close>

definition isdir :: "files \<Rightarrow> string \<Rightarrow> bool" where
  "isdir t p = (case map_of t p of Some (Dir m) \<Rightarrow> True | _ \<Rightarrow> False)"

definition path_join :: "string \<Rightarrow> string \<Rightarrow> string" where
  "path_join a b =
     (if startswith b ''/'' then b
      else if a = [] \<or> last a = CHR ''/'' then a @ b
      else a @ ''/'' @ b)"

text \<open>
  \<open>under p q\<close>: the path \<open>q\<close> lies below the directory \<open>p\<close>; \<open>child_name p q\<close>
  is its name when it lies directly in \<open>p\<close>.
\<close>

definition under :: "string \<Rightarrow> string \<Rightarrow> bool" where
  "under p q = startswith q (path_join p [])"

definition child_name :: "string \<Rightarrow> string \<Rightarrow> string option" where
  "child_name p q =
     (let name = drop (length (path_join p [])) q
      in if under p q \<and> name \<noteq> [] \<and> CHR ''/'' \<notin> set name then Some name else None)"

text \<open>The listing of a directory: the names of its sub-directories and of its other entries.\<close>

definition scandir :: "files \<Rightarrow> string \<Rightarrow> (string list \<times> string list) option" where
  "scandir t p =
     (if isdir t p
      then Some (concat (map (\<lambda>(q, n). case (child_name p q, n) of
                                          (Some name, Dir m) \<Rightarrow> [name] | _ \<Rightarrow> []) t),
                 concat (map (\<lambda>(q, n). case (child_name p q, n) of
                                          (Some name, File) \<Rightarrow> [name] | _ \<Rightarrow> []) t))
      else None)"

text \<open>
  The proper ancestors of a path, shortest first, and whether one of them is a regular
  file: the path then cannot be resolved, and the error is \<open>ENOTDIR\<close> rather than
  \<open>ENOENT\<close>.
\<close>

fun ancestors :: "string \<Rightarrow> string \<Rightarrow> string list" where
  "ancestors acc [] = []"
| "ancestors acc (c # cs) =
     (if c = CHR ''/'' \<and> acc \<noteq> [] then acc # ancestors (acc @ [c]) cs
      else ancestors (acc @ [c]) cs)"

definition below_file :: "files \<Rightarrow> string \<Rightarrow> bool" where
  "below_file t p = list_ex (\<lambda>a. map_of t a = Some File) (ancestors [] p)"

text \<open>
  \<open>shutil.rmtree\<close>: a path that is not there raises \<open>FileNotFoundError\<close>, or
  \<open>NotADirectoryError\<close> when it lies below a regular file; a regular file raises
  \<open>NotADirectoryError\<close>; a directory goes with everything below it.
\<close>

definition rmtree :: "files \<Rightarrow> string \<Rightarrow> exn + files" where
  "rmtree t p =
     (case map_of t p of
        None \<Rightarrow> if below_file t p then Inl NotADirectoryError else Inl FileNotFoundError
      | Some File \<Rightarrow> Inl NotADirectoryError
      | Some (Dir m) \<Rightarrow> Inr (filter (\<lambda>(q, n). q \<noteq> p \<and> \<not> under p q) t))"

text \<open>
  \<open>os.makedirs\<close> creates the ancestors that are missing with the default mode, then the
  leaf with the mode it was given; the umask is masked out of both.
\<close>

definition mkdir :: "int \<Rightarrow> files \<Rightarrow> string \<Rightarrow> int \<Rightarrow> exn + files" where
  "mkdir um t p mode =
     (case map_of t p of
        Some n \<Rightarrow> Inl FileExistsError
      | None \<Rightarrow> Inr (t @ [(p, Dir (mode AND NOT um))]))"

fun makedirs_parents :: "int \<Rightarrow> files \<Rightarrow> string list \<Rightarrow> exn + files" where
  "makedirs_parents um t [] = Inr t"
| "makedirs_parents um t (p # ps) =
     (case map_of t p of
        Some (Dir m) \<Rightarrow> makedirs_parents um t ps
      | Some File \<Rightarrow> Inl NotADirectoryError
      | None \<Rightarrow> (case mkdir um t p 511 of
                   Inl e \<Rightarrow> Inl e
                 | Inr t' \<Rightarrow> makedirs_parents um t' ps))"

definition makedirs :: "'w host \<Rightarrow> string \<Rightarrow> int \<Rightarrow> 'w state \<Rightarrow> (exn + unit) \<times> 'w state" where
  "makedirs h p mode st =
     (case makedirs_parents (umask h) (fs st) (ancestors [] p) of
        Inl e \<Rightarrow> (Inl e, st)
      | Inr t \<Rightarrow> (case mkdir (umask h) t p mode of
                   Inl e \<Rightarrow> (Inl e, st\<lparr>fs := t\<rparr>)
                 | Inr t' \<Rightarrow> (Inr (), st\<lparr>fs := t'\<rparr>)))"

text \<open>A \<open>for\<close> loop whose body may raise, or run out of fuel (\<open>None\<close>).\<close>

fun for_each :: "('a \<Rightarrow> 's \<Rightarrow> ((exn + unit) \<times> 's) option) \<Rightarrow> 'a list \<Rightarrow> 's
                 \<Rightarrow> ((exn + unit) \<times> 's) option" where
  "for_each body [] st = Some (Inr (), st)"
| "for_each body (x # xs) st =
     (case body x st of
        None \<Rightarrow> None
      | Some (Inl e, st1) \<Rightarrow> Some (Inl e, st1)
      | Some (Inr _, st1) \<Rightarrow> for_each body xs st1)"

text \<open>
  \<open>fs_del\<close> calls itself on everything \<open>os.walk\<close> lists, and \<open>os.walk\<close> lists a
  directory only when it reaches it, after the loop body has run on its parent. What
  the shell does in between is the host's choice, so the recursion is bounded by fuel
  and \<open>None\<close> means the fuel ran out. \<open>walk_del\<close> is the loop over \<open>os.walk(path)\<close>
  with its body, started at directory \<open>root\<close>; a directory that cannot be listed is
  skipped, as \<open>os.walk\<close> does without an \<open>onerror\<close> handler.
\<close>

fun fs_del :: "nat \<Rightarrow> 'w host \<Rightarrow> string \<Rightarrow> 'w state \<Rightarrow> ((exn + unit) \<times> 'w state) option"
and walk_del :: "nat \<Rightarrow> 'w host \<Rightarrow> string \<Rightarrow> 'w state \<Rightarrow> ((exn + unit) \<times> 'w state) option"
where
  "fs_del 0 h path st = None"
| "fs_del (Suc n) h path st =
     (case (if isdir (fs st) path then walk_del n h path st
            else Some (Inr (), snd (run_cmd h (Some (''shred -f -u -z '' @ path)) False st))) of
        None \<Rightarrow> None
      | Some (Inl e, st1) \<Rightarrow> Some (Inl e, st1)
      | Some (Inr _, st1) \<Rightarrow>
          (case rmtree (fs st1) path of
             Inl FileNotFoundError \<Rightarrow> Some (Inr (), st1)
           | Inl e \<Rightarrow> Some (Inl e, st1)
           | Inr t \<Rightarrow> Some (Inr (), st1\<lparr>fs := t\<rparr>)))"
| "walk_del 0 h root st = None"
| "walk_del (Suc n) h root st =
     (case scandir (fs st) root of
        None \<Rightarrow> Some (Inr (), st)
      | Some (dirs, files) \<Rightarrow>
          (case for_each (\<lambda>dr s. fs_del n h (path_join root dr) s) dirs st of
             None \<Rightarrow> None
           | Some (Inl e, st1) \<Rightarrow> Some (Inl e, st1)
           | Some (Inr _, st1) \<Rightarrow>
               (case for_each (\<lambda>file s. fs_del n h (path_join root file) s) files st1 of
                  None \<Rightarrow> None
                | Some (Inl e, st2) \<Rightarrow> Some (Inl e, st2)
                | Some (Inr _, st2) \<Rightarrow>
                    for_each (\<lambda>dirname s. walk_del n h (path_join root dirname) s) dirs st2)))"

section \<open>The environment detector\<close>

text \<open>
  Lines 133 to 138 of \<open>get_os_info\<close>: the version string is split at hyphens; with fewer
  than two pieces the first piece is returned as it is, otherwise the second piece up to
  its first space, in lower case.
\<close>

definition linux_distro :: "string \<Rightarrow> string \<Rightarrow> exn + (string \<times> string)" where
  "linux_distro os_name ver =
     (case split ver CHR ''-'' of
        [] \<Rightarrow> Inl IndexError
      | [v0] \<Rightarrow> Inr (os_name, v0)
      | v0 # v1 # _ \<Rightarrow>
          (case split v1 CHR '' '' of
             [] \<Rightarrow> Inl IndexError
           | w # _ \<Rightarrow> Inr (os_name, lower w)))"

text \<open>The body of \<open>get_os_info\<close>, as \<open>lru_cache\<close> wraps it.\<close>

definition get_os_info_wrapped :: "'w host \<Rightarrow> 'w state \<Rightarrow> exn + (string \<times> string)" where
  "get_os_info_wrapped h st =
     (let os_name = lower (system h); ver = version h
      in if os_name = ''linux''
         then (if contains ver ''Debian'' \<and> isdir (fs st) ''/etc/tails''
                   \<and> isdir (fs st) ''/etc/amnesia''
               then (case getlogin h of
                       Inl e \<Rightarrow> Inl e
                     | Inr login \<Rightarrow>
                         if login = ''amnesia'' then Inr (''linux'', ''tails'')
                         else linux_distro os_name ver)
               else linux_distro os_name ver)
         else Inr (os_name, lower ver))"

text \<open>\<open>lru_cache\<close>: a result is computed once and kept; an exception is not kept.\<close>

definition get_os_info :: "'w host \<Rightarrow> 'w state \<Rightarrow> (exn + (string \<times> string)) \<times> 'w state" where
  "get_os_info h st =
     (case os_info_cache st of
        Some r \<Rightarrow> (Inr r, st)
      | None \<Rightarrow>
          (case get_os_info_wrapped h st of
             Inl e \<Rightarrow> (Inl e, st)
           | Inr r \<Rightarrow> (Inr r, st\<lparr>os_info_cache := Some r\<rparr>)))"

section \<open>The install planner and the installation steps\<close>

fun chek_can_install_loop :: "pkg list \<Rightarrow> string \<Rightarrow> pkg list \<Rightarrow> pkg list \<Rightarrow> pkg list \<times> pkg list"
where
  "chek_can_install_loop [] distro available not_available = (available, not_available)"
| "chek_can_install_loop (dep # deps) distro available not_available =
     (if map_of (PKGS_ISNTALL dep) distro \<noteq> None
      then chek_can_install_loop deps distro (available @ [dep]) not_available
      else chek_can_install_loop deps distro available (not_available @ [dep]))"

definition chek_can_install :: "pkg list \<Rightarrow> string \<Rightarrow> pkg list \<times> pkg list" where
  "chek_can_install deps distro = chek_can_install_loop deps distro [] []"

definition run_pre_install :: "'w host \<Rightarrow> string \<Rightarrow> 'w state \<Rightarrow> (exn + bool) \<times> 'w state" where
  "run_pre_install h distro st =
     (if PRE_INSTALL_RUNNED st then (Inr True, st)
      else let st1 = st\<lparr>PRE_INSTALL_RUNNED := True\<rparr>
           in case map_of PRE_INSTALL distro of
                None \<Rightarrow> (Inr True, st1)
              | Some cmds \<Rightarrow>
                  (case ask_execute cmds st1 of
                     (Inl e, st2) \<Rightarrow> (Inl e, st2)
                   | (Inr ok, st2) \<Rightarrow>
                       if \<not> ok then (Inr False, st2)
                       else (case run_cmds h cmds True st2 of
                               (code, st3) \<Rightarrow> (Inr (code = 0), st3))))"

fun install_deps_commands :: "string \<Rightarrow> pkg list \<Rightarrow> string list \<Rightarrow> exn + string list" where
  "install_deps_commands distro [] commands = Inr commands"
| "install_deps_commands distro (dep # deps) commands =
     (case map_of (PKGS_ISNTALL dep) distro of
        None \<Rightarrow> Inl KeyError
      | Some CmdsNone \<Rightarrow> Inl TypeError
      | Some (CmdsStr cmd) \<Rightarrow> install_deps_commands distro deps (commands @ [cmd])
      | Some (CmdsSeq cmd) \<Rightarrow> install_deps_commands distro deps (commands @ cmd))"

definition install_deps :: "'w host \<Rightarrow> string \<Rightarrow> pkg list \<Rightarrow> 'w state \<Rightarrow> (exn + bool) \<times> 'w state"
where
  "install_deps h distro deps st =
     (case install_deps_commands distro deps [] of
        Inl e \<Rightarrow> (Inl e, st)
      | Inr commands \<Rightarrow>
          (case ask_execute (CmdsSeq commands) st of
             (Inl e, st1) \<Rightarrow> (Inl e, st1)
           | (Inr ok, st1) \<Rightarrow>
               if \<not> ok then (Inr False, st1)
               else (case run_cmds h (CmdsSeq commands) True st1 of
                       (code, st2) \<Rightarrow> (Inr (code = 0), st2))))"

section \<open>The provisioning loop\<close>

text \<open>The probing loop of \<open>check_deps\<close> (lines 244 to 254).\<close>

fun probe_loop :: "'w host \<Rightarrow> pkg list \<Rightarrow> pkg list \<Rightarrow> 'w state \<Rightarrow> pkg list \<times> 'w state" where
  "probe_loop h [] to_install st = (to_install, st)"
| "probe_loop h (pkg # pkgs) to_install st =
     (let (check_cmd, req_code) =
            (case PKGS_CHECK pkg of Check c \<Rightarrow> (c, 0) | CheckCode c r \<Rightarrow> (c, r))
      in case run_cmd h (Some check_cmd) False st of
           ((code, _, _), st1) \<Rightarrow>
             if code \<noteq> req_code then probe_loop h pkgs (to_install @ [pkg]) st1
             else probe_loop h pkgs to_install st1)"

text \<open>The notice of lines 258 to 261.\<close>

definition print_needed :: "pkg list \<Rightarrow> 'w state \<Rightarrow> 'w state" where
  "print_needed to_install st =
     print (''Press '' @ CL_GREY @ ''Ctrl+c'' @ CL_NORM @ '' to skip packages management ''
              @ CL_GREY @ ''at your own risk'' @ CL_NORM)
       (fold (\<lambda>pkg. print ([CHR 0x09] @ CL_GREEN @ PKGS_NAME pkg @ CL_NORM @ '' (''
                              @ PKGS_COMMENT pkg @ '')''))
             to_install
             (print ''This script needs to instal those dependencies:'' st))"

definition MANUAL_MSG :: string where
  "MANUAL_MSG = ''Please install them manually before continue''"

definition FAILED_MSG :: string where
  "FAILED_MSG = [CHR 0x0A] @ CL_RED @ ''Failed to install script dependencies'' @ CL_NORM"

subsection \<open>No step gives input back\<close>

text \<open>
  The loop of \<open>check_deps\<close> ends because every round that does not leave it reads
  from standard input, and no step adds to it.
\<close>

lemma run_cmd_frame:
  "run_cmd h c i st = (r, st') \<Longrightarrow>
     stdin st' = stdin st \<and> PRE_INSTALL_RUNNED st' = PRE_INSTALL_RUNNED st
     \<and> os_info_cache st' = os_info_cache st"
  by (cases c) (auto split: prod.splits)

lemma stdin_run_cmd [simp]: "stdin (snd (run_cmd h c i st)) = stdin st"
  using run_cmd_frame [of h c i st] by (cases "run_cmd h c i st") simp

declare run_cmd.simps(2) [simp del]

lemma stdin_run_cmds_loop [simp]: "stdin (snd (run_cmds_loop h cs i st)) = stdin st"
proof (induction cs arbitrary: st)
  case Nil
  show ?case by simp
next
  case (Cons c cs)
  have "stdin (snd (run_cmd h (Some c) i st)) = stdin st" by (rule stdin_run_cmd)
  with Cons show ?case
    by (cases "run_cmd h (Some c) i st") auto
qed

lemma stdin_run_cmds [simp]: "stdin (snd (run_cmds h cs i st)) = stdin st"
  by (cases cs) (simp_all only: run_cmds.simps stdin_run_cmds_loop, simp)

lemma stdin_probe_loop [simp]: "stdin (snd (probe_loop h pkgs acc st)) = stdin st"
proof (induction pkgs arbitrary: acc st)
  case Nil
  show ?case by simp
next
  case (Cons p ps)
  obtain c r where cr: "(case PKGS_CHECK p of Check c \<Rightarrow> (c, 0) | CheckCode c r \<Rightarrow> (c, r)) = (c, r)"
    by (cases "PKGS_CHECK p") auto
  have "stdin (snd (run_cmd h (Some c) False st)) = stdin st" by (rule stdin_run_cmd)
  with Cons cr show ?case
    by (cases "run_cmd h (Some c) False st") auto
qed

lemma stdin_print_needed [simp]: "stdin (print_needed xs st) = stdin st"
proof -
  have "stdin (fold (\<lambda>pkg. print (f pkg)) xs s) = stdin s" for f :: "pkg \<Rightarrow> string" and s :: "'a state"
    by (induction xs arbitrary: s) simp_all
  then show ?thesis by (simp add: print_needed_def)
qed

lemma stdin_ask_continue:
  "ask_continue st = (Inr u, st') \<Longrightarrow> length (stdin st') < length (stdin st)"
  by (auto simp: ask_continue_def split: prod.splits sum.splits dest!: input_Inr)

lemma ask_eof:
  "stdin st = [] \<Longrightarrow>
     ask p st = (Inl EOFError, st\<lparr>trace := trace st @ [Prompt (ask_prompt p)]\<rparr>)"
  by (subst ask.simps) (simp add: input_def)

lemma ask_ctrlc:
  "stdin st = CtrlC # r \<Longrightarrow>
     ask p st = (Inl KeyboardInterrupt,
                 st\<lparr>stdin := r, trace := trace st @ [Prompt (ask_prompt p)]\<rparr>)"
  by (subst ask.simps) (simp add: input_def)

lemma ask_line:
  "stdin st = Line s # r \<Longrightarrow>
     ask p st =
       (let st1 = st\<lparr>stdin := r, trace := trace st @ [Prompt (ask_prompt p)]\<rparr>
        in if s = YES then (Inr True, st1)
           else if s = NO then (Inr False, st1)
           else ask p (print PLEASE_TYPE st1))"
  by (subst ask.simps) (simp add: input_def Let_def)

lemma stdin_ask_le: "length (stdin (snd (ask p st))) \<le> length (stdin st)"
proof (induction "stdin st" arbitrary: st)
  case Nil
  then show ?case by (simp add: ask_eof)
next
  case (Cons k r)
  from Cons(2) have eq: "stdin st = k # r" by simp
  show ?case
  proof (cases k)
    case CtrlC
    with eq show ?thesis by (simp add: ask_ctrlc [of st r])
  next
    case (Line s)
    let ?st1 = "st\<lparr>stdin := r, trace := trace st @ [Prompt (ask_prompt p)]\<rparr>"
    have "length (stdin (snd (ask p (print q ?st1)))) \<le> length r" for q
      using Cons(1) [of "print q ?st1"] by simp
    from this [of PLEASE_TYPE] eq Line show ?thesis
      by (simp add: ask_line [of st s r] Let_def)
  qed
qed

lemma stdin_ask:
  assumes "ask p st = (Inr b, st')"
  shows "length (stdin st') < length (stdin st)"
proof (cases "stdin st")
  case Nil
  with assms show ?thesis by (simp add: ask_eof)
next
  case (Cons k r)
  show ?thesis
  proof (cases k)
    case CtrlC
    with Cons assms show ?thesis by (simp add: ask_ctrlc [of st r])
  next
    case (Line s)
    let ?st1 = "st\<lparr>stdin := r, trace := trace st @ [Prompt (ask_prompt p)]\<rparr>"
    have "length (stdin (snd (ask p (print q ?st1)))) \<le> length r" for q
      using stdin_ask_le [of p "print q ?st1"] by simp
    from this [of PLEASE_TYPE] Cons Line assms
    show ?thesis
      by (auto simp: ask_line [of st s r] Let_def split: if_splits)
  qed
qed

lemma stdin_ask_execute_le: "length (stdin (snd (ask_execute c st))) \<le> length (stdin st)"
  by (cases c) (simp_all add: ask_execute_seq_def stdin_ask_le)

lemma stdin_confirm_run_le:
  "length (stdin (snd (case ask_execute c st of
                        (Inl e, st2) \<Rightarrow> (Inl e, st2)
                      | (Inr ok, st2) \<Rightarrow>
                          if \<not> ok then (Inr False, st2)
                          else (case run_cmds h c' True st2 of
                                  (code, st3) \<Rightarrow> (Inr (code = 0), st3)))))
     \<le> length (stdin st)"
proof (cases "ask_execute c st")
  case (Pair r st2)
  have le: "length (stdin st2) \<le> length (stdin st)"
    using stdin_ask_execute_le [of c st] Pair by simp
  show ?thesis
  proof (cases r)
    case (Inl e)
    with Pair le show ?thesis by simp
  next
    case (Inr ok)
    have "stdin (snd (run_cmds h c' True st2)) = stdin st2" by simp
    with Pair Inr le show ?thesis
      by (cases "run_cmds h c' True st2") simp
  qed
qed

lemma stdin_run_pre_install_le:
  "length (stdin (snd (run_pre_install h d st))) \<le> length (stdin st)"
proof (cases "PRE_INSTALL_RUNNED st")
  case True
  then show ?thesis by (simp add: run_pre_install_def)
next
  case False
  show ?thesis
  proof (cases "map_of PRE_INSTALL d")
    case None
    with False show ?thesis by (simp add: run_pre_install_def)
  next
    case (Some c)
    with False show ?thesis
      using stdin_confirm_run_le [where c = c and st = "st\<lparr>PRE_INSTALL_RUNNED := True\<rparr>" and h = h and c' = c]
      by (simp add: run_pre_install_def)
  qed
qed

lemma stdin_install_deps_le:
  "length (stdin (snd (install_deps h d deps st))) \<le> length (stdin st)"
proof (cases "install_deps_commands d deps []")
  case (Inl e)
  then show ?thesis by (simp add: install_deps_def)
next
  case (Inr cs)
  then show ?thesis
    using stdin_confirm_run_le [where c = "CmdsSeq cs" and st = st and h = h and c' = "CmdsSeq cs"]
    by (simp add: install_deps_def)
qed

lemma probe_loop_stdin: "(x, y) = probe_loop h pkgs acc st \<Longrightarrow> stdin y = stdin st"
  using stdin_probe_loop [of h pkgs acc st] by (cases "probe_loop h pkgs acc st") simp

lemma ask_continue_lt:
  "(r, y) = ask_continue s \<Longrightarrow> r = Inr b \<Longrightarrow> length (stdin y) < length (stdin s)"
  using stdin_ask_continue [of s b y] by simp

lemma ask_lt: "(r, y) = ask p s \<Longrightarrow> r = Inr b \<Longrightarrow> length (stdin y) < length (stdin s)"
  using stdin_ask [of p s b y] by simp

lemma run_pre_install_le:
  "(r, y) = run_pre_install h d s \<Longrightarrow> length (stdin y) \<le> length (stdin s)"
  using stdin_run_pre_install_le [of h d s] by (cases "run_pre_install h d s") simp

lemma install_deps_le:
  "(r, y) = install_deps h d deps s \<Longrightarrow> length (stdin y) \<le> length (stdin s)"
  using stdin_install_deps_le [of h d deps s] by (cases "install_deps h d deps s") simp

subsection \<open>The loop\<close>

text \<open>
  The \<open>while True\<close> of \<open>check_deps\<close>, with its loop variable \<open>recheck\<close>; the
  registry and the distribution do not change from one round to the next.
\<close>

function check_deps_loop ::
  "'w host \<Rightarrow> pkg list \<Rightarrow> string \<Rightarrow> bool \<Rightarrow> 'w state \<Rightarrow> (exn + bool) \<times> 'w state" where
  "check_deps_loop h pkgs distro recheck st =
     (case probe_loop h pkgs [] st of
        (to_install, st1) \<Rightarrow>
          if length to_install = 0 then (Inr True, st1)
          else
            let st2 = (if \<not> recheck then print_needed to_install st1 else st1)
            in case chek_can_install to_install distro of
                 (auto, manual) \<Rightarrow>
                   if length manual \<noteq> 0 then
                    (let st3 =
                           (if length auto = 0
                            then print ''They cannot be install automatically on current system'' st2
                            else print (''Those packages cannot be install automatically on current system:''
                                          @ [CHR 0x0A, CHR 0x09] @ CL_YELLOW
                                          @ join '' '' (map PKGS_NAME manual) @ CL_NORM) st2)
                     in case ask_continue (print MANUAL_MSG st3) of
                          (Inl e, st4) \<Rightarrow> (Inl e, st4)
                        | (Inr _, st4) \<Rightarrow> check_deps_loop h pkgs distro True st4)
                   else
                    (case ask ''Do you want to install them?''
                            (print ''They can be install automatically'' st2) of
                       (Inl e, st3) \<Rightarrow> (Inl e, st3)
                     | (Inr yes, st3) \<Rightarrow>
                         if \<not> yes then
                           (case ask_continue (print MANUAL_MSG st3) of
                              (Inl e, st4) \<Rightarrow> (Inl e, st4)
                            | (Inr _, st4) \<Rightarrow> check_deps_loop h pkgs distro False st4)
                         else
                           (case run_pre_install h distro st3 of
                              (Inl e, st4) \<Rightarrow> (Inl e, st4)
                            | (Inr pre_ok, st4) \<Rightarrow>
                                if \<not> pre_ok then (Inr False, print FAILED_MSG st4)
                                else
                                  (case install_deps h distro auto st4 of
                                     (Inl e, st5) \<Rightarrow> (Inl e, st5)
                                   | (Inr ok, st5) \<Rightarrow>
                                       if \<not> ok then (Inr False, print FAILED_MSG st5)
                                       else check_deps_loop h pkgs distro False st5))))"
  by pat_completeness auto
termination
  apply (relation "measure (\<lambda>(h, pkgs, distro, recheck, st). length (stdin st))")
  apply simp
  subgoal for h pkgs distro recheck st x y xa xb ya xc xd yb b
    by (auto dest!: probe_loop_stdin ask_continue_lt [where b = b] split: if_splits)
  subgoal for h pkgs distro recheck st x y xa xb ya xc yb b xd yc ba
    by (auto dest!: probe_loop_stdin ask_continue_lt [where b = ba] ask_lt [where b = b]
             split: if_splits)
  subgoal for h pkgs distro recheck st x y xa xb ya xc yb b xd yc ba xe yd bb
    by (auto dest!: probe_loop_stdin ask_lt [where b = b] run_pre_install_le install_deps_le
             split: if_splits)
  done

declare check_deps_loop.simps [simp del]

definition check_deps :: "'w host \<Rightarrow> 'w state \<Rightarrow> (exn + bool) \<times> 'w state" where
  "check_deps h st =
     (case get_os_info h st of
        (Inl e, st1) \<Rightarrow> (Inl e, st1)
      | (Inr (_, distro), st1) \<Rightarrow>
          check_deps_loop h (PKGS (TMP_DIR (token h))) distro False st1)"

definition check_os :: "'w host \<Rightarrow> 'w state \<Rightarrow> (exn + bool) \<times> 'w state" where
  "check_os h st =
     (case get_os_info h st of
        (Inl e, st1) \<Rightarrow> (Inl e, st1)
      | (Inr (os, distro), st1) \<Rightarrow>
          if os \<notin> set SUPPORTED_OS
          then (Inr False, print RECOMMEND_OS_MSG (print WRONG_OS_MSG st1))
          else if distro \<notin> set RECOMENDED_DISTROS
          then ask ''Do your want to continue on current system'' (print RECOMMEND_OS_MSG st1)
          else (Inr True, st1))"

section \<open>The workspace and the top level\<close>

definition init :: "'w host \<Rightarrow> 'w state \<Rightarrow> (exn + bool) \<times> 'w state" where
  "init h st =
     (case check_os h st of
        (Inl e, st1) \<Rightarrow> (Inl e, st1)
      | (Inr os_ok, st1) \<Rightarrow>
          if \<not> os_ok then (Inr False, st1)
          else (case check_deps h st1 of
                  (Inl e, st2) \<Rightarrow>
                    if e = KeyboardInterrupt
                    then (Inr True,
                          print (CL_YELLOW @ ''Continue without them. '' @ CL_RED
                                   @ ''It may cause problems'' @ CL_NORM @ [CHR 0x0A])
                            (print ([CHR 0x0A, CHR 0x0A] @ CL_RED
                                      @ ''Dependencies cheking interrupted by user'' @ CL_NORM) st2))
                    else (Inl e, st2)
                | (Inr deps_ok, st2) \<Rightarrow>
                    if \<not> deps_ok then (Inr False, st2) else (Inr True, st2)))"

definition main :: "'w host \<Rightarrow> 'w state \<Rightarrow> (exn + unit) \<times> 'w state" where
  "main h st =
     (case init h st of
        (Inl e, st1) \<Rightarrow> (Inl e, st1)
      | (Inr ok, st1) \<Rightarrow>
          if \<not> ok then (Inr (), st1) else (Inr (), print BEGIN_MSG st1))"

text \<open>
  \<open>with tmp_dir(): body\<close>. The generator creates the directory and yields; when the body
  returns, the generator resumes and calls \<open>fs_del\<close>; when the body raises, the exception
  is raised inside the generator at its \<open>yield\<close>, which no \<open>try\<close> encloses, so it leaves
  the generator there and goes on to the caller.
\<close>

definition tmp_dir ::
  "nat \<Rightarrow> 'w host \<Rightarrow> ('w state \<Rightarrow> (exn + unit) \<times> 'w state) \<Rightarrow> 'w state
     \<Rightarrow> ((exn + unit) \<times> 'w state) option" where
  "tmp_dir fuel h body st =
     (case makedirs h (TMP_DIR (token h)) 448 st of
        (Inl e, st1) \<Rightarrow> Some (Inl e, st1)
      | (Inr _, st1) \<Rightarrow>
          (case body st1 of
             (Inl e, st2) \<Rightarrow> Some (Inl e, st2)
           | (Inr _, st2) \<Rightarrow> fs_del fuel h (TMP_DIR (token h)) st2))"

text \<open>The block under \<open>if __name__ == "__main__"\<close>.\<close>

definition script :: "nat \<Rightarrow> 'w host \<Rightarrow> 'w state \<Rightarrow> ((exn + unit) \<times> 'w state) option" where
  "script fuel h st =
     (case tmp_dir fuel h
             (\<lambda>s. case main h s of
                     (Inl e, s1) \<Rightarrow>
                       if e = KeyboardInterrupt
                       then (Inr (), print ([CHR 0x0A] @ CL_RED @ ''Interrupted by user'' @ CL_NORM) s1)
                       else (Inl e, s1)
                   | (Inr _, s1) \<Rightarrow> (Inr (), s1))
             st of
        None \<Rightarrow> None
      | Some (Inl e, st1) \<Rightarrow> Some (Inl e, st1)
      | Some (Inr _, st1) \<Rightarrow> Some (Inr (), print ([CHR 0x0A] @ ''Bye'') st1))"

section \<open>Notions used in the statements, and hosts to run the model on\<close>

text \<open>The commands of a command set, in the order \<open>run_cmds\<close> goes through them.\<close>

definition cmds_list :: "cmds \<Rightarrow> string list" where
  "cmds_list cmds = (case cmds of CmdsNone \<Rightarrow> [] | CmdsStr cmd \<Rightarrow> [cmd] | CmdsSeq cs \<Rightarrow> cs)"

text \<open>
  A host and a start state to run the model on: a Linux machine that is not Tails, where
  \<open>argon2 -h\<close> and \<open>false\<close> exit with 1 and every other command with 0.
\<close>

definition example_host :: "unit host" where
  "example_host =
     \<lparr> sh = (\<lambda>cmd interactive (t, w).
                ((if cmd = ''argon2 -h'' \<or> cmd = ''false'' then 1 else 0, [], []), (t, w))),
       system = ''Linux'', version = ''#1 SMP'', getlogin = Inr ''user'',
       token = ''q0Zx'', umask = 18 \<rparr>"


definition example_state :: "key list \<Rightarrow> unit state" where
  "example_state keys =
     \<lparr> stdin = keys, trace = [], fs = [(''/'', Dir 493), (''/tmp'', Dir 1023)], world = (),
       PRE_INSTALL_RUNNED = False, os_info_cache = None \<rparr>"

text \<open>What \<open>ask\<close> writes when it turns down the answers \<open>rejected\<close> one after the other.\<close>

definition reprompts :: "string \<Rightarrow> string list \<Rightarrow> event list" where
  "reprompts p rejected = concat (map (\<lambda>s. [Prompt (ask_prompt p), Print PLEASE_TYPE]) rejected)"

text \<open>
  The command of an availability check and the exit code it must return (0 when the
  registry gives none).
\<close>

fun probe_cmd :: "check \<Rightarrow> string" where
  "probe_cmd (Check c) = c"
| "probe_cmd (CheckCode c r) = c"

fun probe_code :: "check \<Rightarrow> int" where
  "probe_code (Check c) = 0"
| "probe_code (CheckCode c r) = r"

text \<open>
  Every package is satisfied: probed one after the other from the given state, each
  availability command returns the code expected of it.
\<close>

fun all_satisfied :: "'w host \<Rightarrow> pkg list \<Rightarrow> 'w state \<Rightarrow> bool" where
  "all_satisfied h [] st = True"
| "all_satisfied h (pkg # pkgs) st =
     (case run_cmd h (Some (probe_cmd (PKGS_CHECK pkg))) False st of
        ((code, _, _), st1) \<Rightarrow> code = probe_code (PKGS_CHECK pkg) \<and> all_satisfied h pkgs st1)"

text \<open>How often a command was handed to the shell, and a bound on it that no step but the
  first pre-install run can raise: the count, plus one while the once-flag is not set.\<close>

definition exec_count :: "string \<Rightarrow> event list \<Rightarrow> nat" where
  "exec_count c tr = length (filter (\<lambda>e. case e of Exec c' i k \<Rightarrow> c' = c | _ \<Rightarrow> False) tr)"

definition pre_bound :: "string \<Rightarrow> 'w state \<Rightarrow> nat" where
  "pre_bound c st = exec_count c (trace st) + (if PRE_INSTALL_RUNNED st then 0 else 1)"

definition recipe_cmds :: "pkg list \<Rightarrow> string set" where
  "recipe_cmds pkgs = (\<Union>pkg \<in> set pkgs. \<Union>(d, cs) \<in> set (PKGS_ISNTALL pkg). set (cmds_list cs))"

text \<open>
  A Tails machine on which every command exits with 0, so that \<open>argon2 -h\<close> never
  returns the 1 the registry expects and the loop keeps offering the installation.
\<close>

definition bare_host :: "unit host" where
  "bare_host =
     \<lparr> sh = (\<lambda>cmd interactive (t, w). ((0, [], []), (t, w))),
       system = ''Linux'', version = ''#1 SMP Debian 6.1.0-1'', getlogin = Inr ''amnesia'',
       token = ''q0Zx'', umask = 18 \<rparr>"

text \<open>
  The distribution key as the specification words it: with a hyphen in the version
  string, the piece after the first hyphen up to its first space; without one, the first
  whitespace-delimited token of the version string; in lower case either way.
\<close>

definition spec_distro_key :: "string \<Rightarrow> string" where
  "spec_distro_key ver =
     lower (if CHR ''-'' \<in> set ver
            then takeWhile (\<lambda>c. c \<noteq> CHR '' '') (split ver CHR ''-'' ! 1)
            else takeWhile (\<lambda>c. \<not> isspace c) (dropWhile isspace ver))"

text \<open>An Ubuntu machine: the version string has a hyphen.\<close>

definition ubuntu_host :: "unit host" where
  "ubuntu_host = example_host\<lparr>version := ''#100~20.04.1-Ubuntu SMP Thu''\<rparr>"

section \<open>The install planner is a partition\<close>

lemma chek_can_install_loop_filter:
  "chek_can_install_loop deps distro available not_available =
     (available @ filter (\<lambda>dep. distro \<in> fst ` set (PKGS_ISNTALL dep)) deps,
      not_available @ filter (\<lambda>dep. distro \<notin> fst ` set (PKGS_ISNTALL dep)) deps)"
  by (induction deps arbitrary: available not_available)
     (simp_all add: map_of_eq_None_iff)

text \<open>
  C5. \<open>chek_can_install\<close> splits its candidates in two lists: the first holds, in the
  order of the input, exactly the candidates whose install-recipe map has the distribution
  as a key, the second the others in the order of the input. The two lists share no
  element, and together they hold every candidate as often as the input does.
\<close>

theorem chek_can_install_partition:
  "chek_can_install deps distro = (auto, manual) \<Longrightarrow>
     auto = filter (\<lambda>dep. distro \<in> fst ` set (PKGS_ISNTALL dep)) deps
     \<and> manual = filter (\<lambda>dep. distro \<notin> fst ` set (PKGS_ISNTALL dep)) deps
     \<and> set auto \<inter> set manual = {}
     \<and> mset auto + mset manual = mset deps
     \<and> (\<forall>dep \<in> set deps. (dep \<in> set auto) = (distro \<in> fst ` set (PKGS_ISNTALL dep)))"
proof -
  assume a: "chek_can_install deps distro = (auto, manual)"
  let ?P = "\<lambda>dep. distro \<in> fst ` set (PKGS_ISNTALL dep)"
  from a have 1: "auto = filter ?P deps" and 2: "manual = filter (\<lambda>dep. \<not> ?P dep) deps"
    by (simp_all add: chek_can_install_def chek_can_install_loop_filter)
  have 3: "set auto \<inter> set manual = {}" unfolding 1 2 by auto
  have 4: "mset auto + mset manual = mset deps" unfolding 1 2 by simp
  have 5: "\<forall>dep \<in> set deps. (dep \<in> set auto) = ?P dep" unfolding 1 by simp
  from 1 2 3 4 5 show ?thesis by blast
qed

theorem chek_can_install_partition_witness:
  "chek_can_install (PKGS ''/tmp/w'') ''tails'' = ([PKGS ''/tmp/w'' ! 1, PKGS ''/tmp/w'' ! 2], [PKGS ''/tmp/w'' ! 0])
   \<and> set [PKGS ''/tmp/w'' ! 1, PKGS ''/tmp/w'' ! 2] \<inter> set [PKGS ''/tmp/w'' ! 0] = {}
   \<and> mset [PKGS ''/tmp/w'' ! 1, PKGS ''/tmp/w'' ! 2] + mset [PKGS ''/tmp/w'' ! 0] = mset (PKGS ''/tmp/w'')"
proof -
  have e: "chek_can_install (PKGS ''/tmp/w'') ''tails''
             = ([PKGS ''/tmp/w'' ! 1, PKGS ''/tmp/w'' ! 2], [PKGS ''/tmp/w'' ! 0])"
    by (simp add: chek_can_install_def PKGS_def)
  from chek_can_install_partition [OF e] e show ?thesis by blast
qed

section \<open>The command runner stops at the first failure\<close>

lemma run_cmd_trace:
  "run_cmd h (Some c) i st = ((code, out, err), st1) \<Longrightarrow> trace st1 = trace st @ [Exec c i code]"
  by (auto simp: run_cmd.simps split: prod.splits)

lemma run_cmds_run_cmds_loop: "run_cmds h cmds i st = run_cmds_loop h (cmds_list cmds) i st"
  by (cases cmds) (simp_all add: cmds_list_def)

lemma run_cmds_loop_failure:
  "run_cmds_loop h cs i st = (code, st') \<Longrightarrow> code \<noteq> 0 \<Longrightarrow>
     \<exists>pre c post. cs = pre @ c # post \<and> \<not> startswith (strip c) ''#''
        \<and> trace st' = trace st @ map (\<lambda>c. Exec c i 0)
                                     (filter (\<lambda>c. \<not> startswith (strip c) ''#'') pre)
                         @ [Exec c i code]"
proof (induction cs arbitrary: st)
  case Nil
  then show ?case by simp
next
  case (Cons x xs)
  show ?case
  proof (cases "startswith (strip x) ''#''")
    case True
    with Cons.prems have "run_cmds_loop h xs i st = (code, st')" by simp
    from Cons.IH [OF this Cons.prems(2)] obtain pre c post where
      p: "xs = pre @ c # post" "\<not> startswith (strip c) ''#''"
         "trace st' = trace st @ map (\<lambda>c. Exec c i 0)
                                    (filter (\<lambda>c. \<not> startswith (strip c) ''#'') pre)
                        @ [Exec c i code]"
      by blast
    from p True have "x # xs = (x # pre) @ c # post \<and> \<not> startswith (strip c) ''#''
        \<and> trace st' = trace st @ map (\<lambda>c. Exec c i 0)
                                     (filter (\<lambda>c. \<not> startswith (strip c) ''#'') (x # pre))
                         @ [Exec c i code]"
      by simp
    then show ?thesis by blast
  next
    case False
    obtain k out err st1 where r: "run_cmd h (Some x) i st = ((k, out, err), st1)"
      by (cases "run_cmd h (Some x) i st") auto
    have t1: "trace st1 = trace st @ [Exec x i k]" by (rule run_cmd_trace [OF r])
    show ?thesis
    proof (cases "k = 0")
      case True
      with Cons.prems False r have "run_cmds_loop h xs i st1 = (code, st')" by simp
      from Cons.IH [OF this Cons.prems(2)] obtain pre c post where
        p: "xs = pre @ c # post" "\<not> startswith (strip c) ''#''"
           "trace st' = trace st1 @ map (\<lambda>c. Exec c i 0)
                                      (filter (\<lambda>c. \<not> startswith (strip c) ''#'') pre)
                          @ [Exec c i code]"
        by blast
      from p False t1 True have "x # xs = (x # pre) @ c # post \<and> \<not> startswith (strip c) ''#''
          \<and> trace st' = trace st @ map (\<lambda>c. Exec c i 0)
                                       (filter (\<lambda>c. \<not> startswith (strip c) ''#'') (x # pre))
                           @ [Exec c i code]"
        by simp
      then show ?thesis by blast
    next
      case nz: False
      with Cons.prems False r have "code = k" "st' = st1" by simp_all
      with t1 False have "x # xs = [] @ x # xs \<and> \<not> startswith (strip x) ''#''
          \<and> trace st' = trace st @ map (\<lambda>c. Exec c i 0)
                                       (filter (\<lambda>c. \<not> startswith (strip c) ''#'') [])
                           @ [Exec x i code]"
        by simp
      then show ?thesis by blast
    qed
  qed
qed

lemma run_cmds_loop_success:
  "run_cmds_loop h cs i st = (0, st') \<Longrightarrow>
     trace st' = trace st @ map (\<lambda>c. Exec c i 0) (filter (\<lambda>c. \<not> startswith (strip c) ''#'') cs)"
proof (induction cs arbitrary: st)
  case Nil
  then show ?case by simp
next
  case (Cons x xs)
  show ?case
  proof (cases "startswith (strip x) ''#''")
    case True
    with Cons show ?thesis by simp
  next
    case False
    obtain k out err st1 where r: "run_cmd h (Some x) i st = ((k, out, err), st1)"
      by (cases "run_cmd h (Some x) i st") auto
    have t1: "trace st1 = trace st @ [Exec x i k]" by (rule run_cmd_trace [OF r])
    from Cons.prems False r have k: "k = 0" and "run_cmds_loop h xs i st1 = (0, st')"
      by (auto split: if_splits)
    from Cons.IH [OF this(2)] t1 k False show ?thesis by simp
  qed
qed

text \<open>
  C4. When \<open>run_cmds\<close> returns a non-zero code, the sequence splits at a command that
  is not a comment: the commands before it that are not comments were run in order and
  each returned 0, then this command was run and returned the code, and nothing was run
  after it. When it returns 0, every command that is not a comment was run and returned 0.
  For \<open>None\<close> and for the empty sequence it returns 0 and changes nothing.
\<close>

theorem run_cmds_first_failure:
  assumes "run_cmds h cmds i st = (code, st')"
  shows "(code \<noteq> 0 \<longrightarrow>
            (\<exists>pre c post. cmds_list cmds = pre @ c # post \<and> \<not> startswith (strip c) ''#''
               \<and> trace st' = trace st @ map (\<lambda>c. Exec c i 0)
                                            (filter (\<lambda>c. \<not> startswith (strip c) ''#'') pre)
                                @ [Exec c i code]))
       \<and> (code = 0 \<longrightarrow>
            trace st' = trace st @ map (\<lambda>c. Exec c i 0)
                                      (filter (\<lambda>c. \<not> startswith (strip c) ''#'') (cmds_list cmds)))
       \<and> (cmds_list cmds = [] \<longrightarrow> code = 0 \<and> st' = st)"
proof -
  from assms have l: "run_cmds_loop h (cmds_list cmds) i st = (code, st')"
    by (simp add: run_cmds_run_cmds_loop)
  have 1: "code \<noteq> 0 \<longrightarrow>
            (\<exists>pre c post. cmds_list cmds = pre @ c # post \<and> \<not> startswith (strip c) ''#''
               \<and> trace st' = trace st @ map (\<lambda>c. Exec c i 0)
                                            (filter (\<lambda>c. \<not> startswith (strip c) ''#'') pre)
                                @ [Exec c i code])"
    using run_cmds_loop_failure [OF l] by blast
  have 2: "code = 0 \<longrightarrow>
            trace st' = trace st @ map (\<lambda>c. Exec c i 0)
                                      (filter (\<lambda>c. \<not> startswith (strip c) ''#'') (cmds_list cmds))"
    using run_cmds_loop_success [of h "cmds_list cmds" i st st'] l by blast
  have 3: "cmds_list cmds = [] \<longrightarrow> code = 0 \<and> st' = st"
    using l by auto
  from 1 2 3 show ?thesis by blast
qed

lemma example_run:
  "run_cmds example_host (CmdsSeq [''true'', ''# note'', ''false'', ''true'']) True (example_state [])
     = (1, (example_state [])\<lparr>trace := [Exec ''true'' True 0, Exec ''false'' True 1]\<rparr>)"
  by (simp add: run_cmd.simps example_host_def example_state_def strip_def lstrip_def rstrip_def
        startswith_def isspace_def)

theorem run_cmds_first_failure_witness:
  "\<exists>pre c post.
      cmds_list (CmdsSeq [''true'', ''# note'', ''false'', ''true'']) = pre @ c # post
      \<and> \<not> startswith (strip c) ''#''
      \<and> trace ((example_state [])\<lparr>trace := [Exec ''true'' True 0, Exec ''false'' True 1]\<rparr>)
          = trace (example_state [])
            @ map (\<lambda>c. Exec c True 0) (filter (\<lambda>c. \<not> startswith (strip c) ''#'') pre)
            @ [Exec c True 1]"
proof -
  have "(1::int) \<noteq> 0" by simp
  with run_cmds_first_failure [OF example_run] show ?thesis by blast
qed

section \<open>Comment entries are never run\<close>

lemma cmds_list_simps [simp]:
  "cmds_list CmdsNone = []" "cmds_list (CmdsStr c) = [c]" "cmds_list (CmdsSeq cs) = cs"
  by (simp_all add: cmds_list_def)

lemma run_cmds_loop_filter:
  "run_cmds_loop h cs i st
     = run_cmds_loop h (filter (\<lambda>c. \<not> startswith (strip c) ''#'') cs) i st"
proof (induction cs arbitrary: st)
  case Nil
  show ?case by simp
next
  case (Cons x xs)
  show ?case
  proof (cases "startswith (strip x) ''#''")
    case True
    with Cons show ?thesis by simp
  next
    case False
    obtain k out err st1 where r: "run_cmd h (Some x) i st = ((k, out, err), st1)"
      by (cases "run_cmd h (Some x) i st") auto
    from False r Cons [of st1] show ?thesis by simp
  qed
qed

lemma run_cmds_loop_events:
  "\<exists>new. trace (snd (run_cmds_loop h cs i st)) = trace st @ new
         \<and> (\<forall>e \<in> set new. \<exists>c code. e = Exec c i code \<and> c \<in> set cs
                                     \<and> \<not> startswith (strip c) ''#'')"
proof (induction cs arbitrary: st)
  case Nil
  show ?case by simp
next
  case (Cons x xs)
  show ?case
  proof (cases "startswith (strip x) ''#''")
    case True
    from Cons [of st] obtain new where
      "trace (snd (run_cmds_loop h xs i st)) = trace st @ new"
      "\<forall>e \<in> set new. \<exists>c code. e = Exec c i code \<and> c \<in> set xs \<and> \<not> startswith (strip c) ''#''"
      by blast
    with True show ?thesis by auto
  next
    case False
    obtain k out err st1 where r: "run_cmd h (Some x) i st = ((k, out, err), st1)"
      by (cases "run_cmd h (Some x) i st") auto
    have t1: "trace st1 = trace st @ [Exec x i k]" by (rule run_cmd_trace [OF r])
    show ?thesis
    proof (cases "k = 0")
      case True
      from Cons [of st1] obtain new where n:
        "trace (snd (run_cmds_loop h xs i st1)) = trace st1 @ new"
        "\<forall>e \<in> set new. \<exists>c code. e = Exec c i code \<and> c \<in> set xs \<and> \<not> startswith (strip c) ''#''"
        by blast
      have "trace (snd (run_cmds_loop h (x # xs) i st)) = trace st @ (Exec x i k # new)"
        using False r True n(1) t1 by simp
      moreover have "\<forall>e \<in> set (Exec x i k # new).
          \<exists>c code. e = Exec c i code \<and> c \<in> set (x # xs) \<and> \<not> startswith (strip c) ''#''"
        using n(2) False by auto
      ultimately show ?thesis by blast
    next
      case nz: False
      have "trace (snd (run_cmds_loop h (x # xs) i st)) = trace st @ [Exec x i k]"
        using False r nz t1 by simp
      moreover have "\<forall>e \<in> set [Exec x i k].
          \<exists>c code. e = Exec c i code \<and> c \<in> set (x # xs) \<and> \<not> startswith (strip c) ''#''"
        using False by simp
      ultimately show ?thesis by blast
    qed
  qed
qed

text \<open>
  C8. Taking the comment entries out of a command set changes neither the code
  \<open>run_cmds\<close> returns nor the state it leaves, and no command that \<open>run_cmds\<close> hands
  to the shell is a comment entry.
\<close>

theorem run_cmds_skips_comments:
  "run_cmds h cmds i st
     = run_cmds h (CmdsSeq (filter (\<lambda>c. \<not> startswith (strip c) ''#'') (cmds_list cmds))) i st
   \<and> (\<forall>c k code.
         Exec c k code \<in> set (drop (length (trace st)) (trace (snd (run_cmds h cmds i st))))
           \<longrightarrow> \<not> startswith (strip c) ''#'')"
proof -
  have 1: "run_cmds h cmds i st
     = run_cmds h (CmdsSeq (filter (\<lambda>c. \<not> startswith (strip c) ''#'') (cmds_list cmds))) i st"
    using run_cmds_loop_filter [of h "cmds_list cmds" i st]
    by (simp add: run_cmds_run_cmds_loop)
  from run_cmds_loop_events [of h "cmds_list cmds" i st] obtain new where n:
    "trace (snd (run_cmds h cmds i st)) = trace st @ new"
    "\<forall>e \<in> set new. \<exists>c code. e = Exec c i code \<and> c \<in> set (cmds_list cmds)
                              \<and> \<not> startswith (strip c) ''#''"
    by (auto simp: run_cmds_run_cmds_loop)
  have 2: "\<forall>c k code.
         Exec c k code \<in> set (drop (length (trace st)) (trace (snd (run_cmds h cmds i st))))
           \<longrightarrow> \<not> startswith (strip c) ''#''"
    using n by auto
  from 1 2 show ?thesis by blast
qed

lemma example_comment_run:
  "run_cmds example_host (CmdsSeq [''  # false'', ''true'']) True (example_state [])
     = (0, (example_state [])\<lparr>trace := [Exec ''true'' True 0]\<rparr>)"
  by (simp add: run_cmd.simps example_host_def example_state_def strip_def lstrip_def rstrip_def
        startswith_def isspace_def)

theorem run_cmds_skips_comments_witness:
  "run_cmds example_host (CmdsSeq [''  # false'', ''true'']) True (example_state [])
     = run_cmds example_host (CmdsSeq [''true'']) True (example_state [])
   \<and> Exec ''true'' True 0
       \<in> set (drop (length (trace (example_state [])))
                 (trace (snd (run_cmds example_host (CmdsSeq [''  # false'', ''true'']) True
                                (example_state [])))))
   \<and> \<not> startswith (strip ''true'') ''#''"
proof -
  have m: "Exec ''true'' True 0
       \<in> set (drop (length (trace (example_state [])))
                 (trace (snd (run_cmds example_host (CmdsSeq [''  # false'', ''true'']) True
                                (example_state [])))))"
    unfolding example_comment_run by (simp add: example_state_def)
  have f: "filter (\<lambda>c. \<not> startswith (strip c) ''#'') (cmds_list (CmdsSeq [''  # false'', ''true'']))
             = [''true'']"
    by (simp add: strip_def lstrip_def rstrip_def startswith_def isspace_def)
  from run_cmds_skips_comments [of example_host "CmdsSeq [''  # false'', ''true'']" True
         "example_state []"] m f
  show ?thesis by (simp only:) blast
qed

section \<open>The confirmation prompt\<close>

lemma ask_rejected:
  assumes "\<forall>s \<in> set rejected. s \<noteq> ''Yes'' \<and> s \<noteq> ''No''"
      and "stdin st = map Line rejected @ rest"
  shows "ask p st = ask p (st\<lparr>stdin := rest, trace := trace st @ reprompts p rejected\<rparr>)"
  using assms
proof (induction rejected arbitrary: st)
  case Nil
  then have "st\<lparr>stdin := rest, trace := trace st @ reprompts p []\<rparr> = st"
    by (simp add: reprompts_def)
  then show ?case by simp
next
  case (Cons s ss)
  let ?st1 = "st\<lparr>stdin := map Line ss @ rest, trace := trace st @ [Prompt (ask_prompt p)]\<rparr>"
  from Cons.prems have s: "s \<noteq> YES" "s \<noteq> NO" by (simp_all add: YES_def NO_def)
  from Cons.prems have "stdin st = Line s # (map Line ss @ rest)" by simp
  from ask_line [OF this, of p] s
  have 1: "ask p st = ask p (print PLEASE_TYPE ?st1)" by (simp add: Let_def)
  have 2: "ask p (print PLEASE_TYPE ?st1) = ask p ((print PLEASE_TYPE ?st1)
                 \<lparr>stdin := rest, trace := trace (print PLEASE_TYPE ?st1) @ reprompts p ss\<rparr>)"
    using Cons.prems by (intro Cons.IH) (simp_all add: print_def)
  have 3: "(print PLEASE_TYPE ?st1)
                 \<lparr>stdin := rest, trace := trace (print PLEASE_TYPE ?st1) @ reprompts p ss\<rparr>
             = st\<lparr>stdin := rest, trace := trace st @ reprompts p (s # ss)\<rparr>"
    by (simp add: print_def reprompts_def)
  show ?case unfolding 1 2 3 ..
qed


lemma stdin_decompose:
  "\<exists>rejected rest. (\<forall>s \<in> set rejected. s \<noteq> ''Yes'' \<and> s \<noteq> ''No'')
      \<and> ks = map Line rejected @ rest
      \<and> (rest = [] \<or> (\<exists>r. rest = CtrlC # r) \<or> (\<exists>r. rest = Line ''Yes'' # r)
           \<or> (\<exists>r. rest = Line ''No'' # r))"
proof (induction ks)
  case Nil
  show ?case by (rule exI [of _ "[]"], rule exI [of _ "[]"]) simp
next
  case (Cons k ks)
  then obtain rejected rest where
    d: "(\<forall>s \<in> set rejected. s \<noteq> ''Yes'' \<and> s \<noteq> ''No'')
      \<and> ks = map Line rejected @ rest
      \<and> (rest = [] \<or> (\<exists>r. rest = CtrlC # r) \<or> (\<exists>r. rest = Line ''Yes'' # r)
           \<or> (\<exists>r. rest = Line ''No'' # r))"
    by (elim exE) (rule that)
  show ?case
  proof (cases k)
    case CtrlC
    show ?thesis
      by (rule exI [of _ "[]"], rule exI [of _ "k # ks"]) (simp add: CtrlC)
  next
    case (Line s)
    show ?thesis
    proof (cases "s = ''Yes'' \<or> s = ''No''")
      case True
      show ?thesis
        by (rule exI [of _ "[]"], rule exI [of _ "k # ks"]) (use Line True in auto)
    next
      case False
      show ?thesis
        by (rule exI [of _ "s # rejected"], rule exI [of _ rest]) (use Line False d in simp)
    qed
  qed
qed

lemma ask_if:
  assumes rej: "\<forall>s \<in> set rejected. s \<noteq> ''Yes'' \<and> s \<noteq> ''No''"
      and inp: "stdin st = map Line rejected @ Line (if b then ''Yes'' else ''No'') # rest"
  shows "ask p st = (Inr b, st\<lparr>stdin := rest,
                               trace := trace st @ reprompts p rejected @ [Prompt (ask_prompt p)]\<rparr>)"
proof -
  let ?st1 = "st\<lparr>stdin := Line (if b then ''Yes'' else ''No'') # rest,
                 trace := trace st @ reprompts p rejected\<rparr>"
  have "ask p st = ask p ?st1" by (rule ask_rejected [OF rej inp])
  also have "\<dots> = (Inr b, ?st1\<lparr>stdin := rest, trace := trace ?st1 @ [Prompt (ask_prompt p)]\<rparr>)"
    using ask_line [of ?st1 "if b then ''Yes'' else ''No''" rest p]
    by (cases b) (simp_all add: Let_def YES_def NO_def)
  finally show ?thesis by simp
qed


lemma ask_only_if:
  assumes "ask p st = (Inr b, st')"
  shows "\<exists>rejected rest. (\<forall>s \<in> set rejected. s \<noteq> ''Yes'' \<and> s \<noteq> ''No'')
           \<and> stdin st = map Line rejected @ Line (if b then ''Yes'' else ''No'') # rest
           \<and> st' = st\<lparr>stdin := rest,
                       trace := trace st @ reprompts p rejected @ [Prompt (ask_prompt p)]\<rparr>"
proof -
  from stdin_decompose [of "stdin st"] obtain rejected rest where
    d: "(\<forall>s \<in> set rejected. s \<noteq> ''Yes'' \<and> s \<noteq> ''No'')
      \<and> stdin st = map Line rejected @ rest
      \<and> (rest = [] \<or> (\<exists>r. rest = CtrlC # r) \<or> (\<exists>r. rest = Line ''Yes'' # r)
           \<or> (\<exists>r. rest = Line ''No'' # r))"
    by (elim exE) (rule that)
  from d have d1: "\<forall>s \<in> set rejected. s \<noteq> ''Yes'' \<and> s \<noteq> ''No''" by (rule conjunct1)
  from d have d2: "stdin st = map Line rejected @ rest" by simp
  from d have d3: "rest = [] \<or> (\<exists>r. rest = CtrlC # r) \<or> (\<exists>r. rest = Line ''Yes'' # r)
           \<or> (\<exists>r. rest = Line ''No'' # r)" by simp
  let ?st1 = "st\<lparr>stdin := rest, trace := trace st @ reprompts p rejected\<rparr>"
  have a: "ask p st = ask p ?st1" by (rule ask_rejected [OF d1 d2])
  from d3 show ?thesis
  proof (elim disjE exE)
    assume "rest = []"
    then have "ask p ?st1 = (Inl EOFError, ?st1\<lparr>trace := trace ?st1 @ [Prompt (ask_prompt p)]\<rparr>)"
      by (intro ask_eof) simp
    with a assms show ?thesis by simp
  next
    fix r assume "rest = CtrlC # r"
    then have "ask p ?st1 = (Inl KeyboardInterrupt,
                 ?st1\<lparr>stdin := r, trace := trace ?st1 @ [Prompt (ask_prompt p)]\<rparr>)"
      by (intro ask_ctrlc) simp
    with a assms show ?thesis by simp
  next
    fix r assume r: "rest = Line ''Yes'' # r"
    with d2 have i: "stdin st = map Line rejected @ Line (if True then ''Yes'' else ''No'') # r"
      by simp
    have e: "ask p st = (Inr True, st\<lparr>stdin := r,
                 trace := trace st @ reprompts p rejected @ [Prompt (ask_prompt p)]\<rparr>)"
      by (rule ask_if [OF d1 i])
    from e assms have b: "b = True"
      and s: "st' = st\<lparr>stdin := r, trace := trace st @ reprompts p rejected @ [Prompt (ask_prompt p)]\<rparr>"
      by simp_all
    show ?thesis
      apply (rule exI [of _ rejected])
      apply (rule exI [of _ r])
      using d1 i b s apply simp
      done
  next
    fix r assume r: "rest = Line ''No'' # r"
    with d2 have i: "stdin st = map Line rejected @ Line (if False then ''Yes'' else ''No'') # r"
      by simp
    have e: "ask p st = (Inr False, st\<lparr>stdin := r,
                 trace := trace st @ reprompts p rejected @ [Prompt (ask_prompt p)]\<rparr>)"
      by (rule ask_if [OF d1 i])
    from e assms have b: "b = False"
      and s: "st' = st\<lparr>stdin := r, trace := trace st @ reprompts p rejected @ [Prompt (ask_prompt p)]\<rparr>"
      by simp_all
    show ?thesis
      apply (rule exI [of _ rejected])
      apply (rule exI [of _ r])
      using d1 i b s apply simp
      done
  qed
qed

text \<open>
  C6. \<open>ask\<close> returns an answer exactly when the input is a sequence of lines that are
  neither \<open>Yes\<close> nor \<open>No\<close>, followed by the line \<open>Yes\<close> (the answer is true) or the line
  \<open>No\<close> (the answer is false). Each line before it is consumed and answered with the
  prompt again and the message asking for one of the two words; the final line is
  consumed after one more prompt; nothing else of the state changes.
\<close>

theorem ask_accepts_exactly_yes_no:
  "ask p st = (Inr b, st') \<longleftrightarrow>
     (\<exists>rejected rest.
         (\<forall>s \<in> set rejected. s \<noteq> ''Yes'' \<and> s \<noteq> ''No'')
         \<and> stdin st = map Line rejected @ Line (if b then ''Yes'' else ''No'') # rest
         \<and> st' = st\<lparr>stdin := rest,
                     trace := trace st @ reprompts p rejected @ [Prompt (ask_prompt p)]\<rparr>)"
proof
  assume "ask p st = (Inr b, st')"
  then show "\<exists>rejected rest.
         (\<forall>s \<in> set rejected. s \<noteq> ''Yes'' \<and> s \<noteq> ''No'')
         \<and> stdin st = map Line rejected @ Line (if b then ''Yes'' else ''No'') # rest
         \<and> st' = st\<lparr>stdin := rest,
                     trace := trace st @ reprompts p rejected @ [Prompt (ask_prompt p)]\<rparr>"
    by (rule ask_only_if)
next
  assume "\<exists>rejected rest.
         (\<forall>s \<in> set rejected. s \<noteq> ''Yes'' \<and> s \<noteq> ''No'')
         \<and> stdin st = map Line rejected @ Line (if b then ''Yes'' else ''No'') # rest
         \<and> st' = st\<lparr>stdin := rest,
                     trace := trace st @ reprompts p rejected @ [Prompt (ask_prompt p)]\<rparr>"
  then obtain rejected rest where
    d: "(\<forall>s \<in> set rejected. s \<noteq> ''Yes'' \<and> s \<noteq> ''No'')
         \<and> stdin st = map Line rejected @ Line (if b then ''Yes'' else ''No'') # rest
         \<and> st' = st\<lparr>stdin := rest,
                     trace := trace st @ reprompts p rejected @ [Prompt (ask_prompt p)]\<rparr>"
    by (elim exE) (rule that)
  from d have d1: "\<forall>s \<in> set rejected. s \<noteq> ''Yes'' \<and> s \<noteq> ''No''" by (rule conjunct1)
  from d have d2: "stdin st = map Line rejected @ Line (if b then ''Yes'' else ''No'') # rest"
    by simp
  from d have d3: "st' = st\<lparr>stdin := rest,
                     trace := trace st @ reprompts p rejected @ [Prompt (ask_prompt p)]\<rparr>"
    by simp
  show "ask p st = (Inr b, st')" unfolding d3 by (rule ask_if [OF d1 d2])
qed


theorem ask_accepts_exactly_yes_no_witness:
  "ask ''Go on?'' (example_state [Line ''y'', Line ''yes'', Line [], Line ''Yes'', Line ''No''])
     = (Inr True,
        (example_state [Line ''y'', Line ''yes'', Line [], Line ''Yes'', Line ''No''])
          \<lparr>stdin := [Line ''No''],
           trace := [Prompt (ask_prompt ''Go on?''), Print PLEASE_TYPE,
                     Prompt (ask_prompt ''Go on?''), Print PLEASE_TYPE,
                     Prompt (ask_prompt ''Go on?''), Print PLEASE_TYPE,
                     Prompt (ask_prompt ''Go on?'')]\<rparr>)"
  apply (rule iffD2 [OF ask_accepts_exactly_yes_no])
  apply (rule exI [of _ "[''y'', ''yes'', []]"])
  apply (rule exI [of _ "[Line ''No'']"])
  apply (simp add: example_state_def reprompts_def)
  done

section \<open>Deleting a path that is not there\<close>

lemma map_of_rmtree:
  "rmtree t p = Inr t' \<Longrightarrow> map_of t' p = None"
proof -
  assume a: "rmtree t p = Inr t'"
  have "map_of (filter (\<lambda>(q, n). q \<noteq> p \<and> \<not> under p q) xs) p = None" for xs :: files
    by (induction xs) auto
  with a show ?thesis
    by (auto simp: rmtree_def split: option.splits node.splits if_splits)
qed

lemma fs_del_removes:
  "fs_del fuel h path st = Some (Inr u, st') \<Longrightarrow> map_of (fs st') path = None"
proof (cases fuel)
  case 0
  assume "fs_del fuel h path st = Some (Inr u, st')"
  with 0 show ?thesis by simp
next
  case (Suc n)
  assume a: "fs_del fuel h path st = Some (Inr u, st')"
  let ?first = "if isdir (fs st) path then walk_del n h path st
            else Some (Inr (), snd (run_cmd h (Some (''shred -f -u -z '' @ path)) False st))"
  from a Suc obtain st1 where f: "?first = Some (Inr (), st1)"
    by (auto simp del: walk_del.simps split: option.splits sum.splits prod.splits if_splits)
  show ?thesis
  proof (cases "rmtree (fs st1) path")
    case (Inl e)
    with a Suc f have "e = FileNotFoundError" "st' = st1"
      by (auto simp del: walk_del.simps split: exn.splits if_splits)
    moreover from Inl \<open>e = FileNotFoundError\<close> have "map_of (fs st1) path = None"
      by (auto simp: rmtree_def split: option.splits node.splits if_splits)
    ultimately show ?thesis by simp
  next
    case (Inr t)
    with a Suc f have "st' = st1\<lparr>fs := t\<rparr>"
      by (auto simp del: walk_del.simps split: if_splits)
    with map_of_rmtree [OF Inr] show ?thesis by simp
  qed
qed




section \<open>The once-flag of the pre-install step\<close>

lemma flag_print [simp]: "PRE_INSTALL_RUNNED (print s st) = PRE_INSTALL_RUNNED st"
  by (simp add: print_def)

lemma flag_input [simp]: "PRE_INSTALL_RUNNED (snd (input p st)) = PRE_INSTALL_RUNNED st"
  by (simp add: input_def split: list.splits key.splits)

lemma flag_ask_continue [simp]:
  "PRE_INSTALL_RUNNED (snd (ask_continue st)) = PRE_INSTALL_RUNNED st"
proof (cases "input (''Press '' @ CL_GREEN @ ''Enter'' @ CL_NORM @ '' when you are ready: '') st")
  case (Pair r st1)
  have "PRE_INSTALL_RUNNED st1 = PRE_INSTALL_RUNNED st"
    using flag_input [of "''Press '' @ CL_GREEN @ ''Enter'' @ CL_NORM @ '' when you are ready: ''" st]
    unfolding Pair by simp
  with Pair show ?thesis by (cases r) (simp_all add: ask_continue_def)
qed

lemma flag_ask [simp]: "PRE_INSTALL_RUNNED (snd (ask p st)) = PRE_INSTALL_RUNNED st"
proof (induction "stdin st" arbitrary: st)
  case Nil
  then show ?case by (simp add: ask_eof)
next
  case (Cons k r)
  from Cons(2) have eq: "stdin st = k # r" by simp
  show ?case
  proof (cases k)
    case CtrlC
    with eq show ?thesis by (simp add: ask_ctrlc [of st r])
  next
    case (Line s)
    let ?st1 = "st\<lparr>stdin := r, trace := trace st @ [Prompt (ask_prompt p)]\<rparr>"
    have "PRE_INSTALL_RUNNED (snd (ask p (print PLEASE_TYPE ?st1))) = PRE_INSTALL_RUNNED st"
      using Cons(1) [of "print PLEASE_TYPE ?st1"] by simp
    with eq Line show ?thesis
      by (simp add: ask_line [of st s r] Let_def)
  qed
qed

lemma flag_ask_execute [simp]:
  "PRE_INSTALL_RUNNED (snd (ask_execute c st)) = PRE_INSTALL_RUNNED st"
  by (cases c) (simp_all add: ask_execute_seq_def)

lemma flag_run_cmd [simp]: "PRE_INSTALL_RUNNED (snd (run_cmd h c i st)) = PRE_INSTALL_RUNNED st"
  using run_cmd_frame [of h c i st] by (cases "run_cmd h c i st") simp

lemma flag_run_cmds_loop [simp]:
  "PRE_INSTALL_RUNNED (snd (run_cmds_loop h cs i st)) = PRE_INSTALL_RUNNED st"
proof (induction cs arbitrary: st)
  case Nil
  show ?case by simp
next
  case (Cons c cs)
  obtain k out err st1 where r: "run_cmd h (Some c) i st = ((k, out, err), st1)"
    by (cases "run_cmd h (Some c) i st") auto
  have f: "PRE_INSTALL_RUNNED st1 = PRE_INSTALL_RUNNED st"
    using flag_run_cmd [of h "Some c" i st] unfolding r by simp
  show ?case using Cons [of st1] Cons [of st] f r by simp
qed

lemma flag_run_cmds [simp]:
  "PRE_INSTALL_RUNNED (snd (run_cmds h cs i st)) = PRE_INSTALL_RUNNED st"
  by (simp add: run_cmds_run_cmds_loop)

lemma flag_confirm_run:
  "PRE_INSTALL_RUNNED (snd (case ask_execute c st of
                        (Inl e, st2) \<Rightarrow> (Inl e, st2)
                      | (Inr ok, st2) \<Rightarrow>
                          if \<not> ok then (Inr False, st2)
                          else (case run_cmds h c' True st2 of
                                  (code, st3) \<Rightarrow> (Inr (code = 0), st3))))
     = PRE_INSTALL_RUNNED st"
proof (cases "ask_execute c st")
  case (Pair r st2)
  have eq: "PRE_INSTALL_RUNNED st2 = PRE_INSTALL_RUNNED st"
    using flag_ask_execute [of c st] Pair by simp
  show ?thesis
  proof (cases r)
    case (Inl e)
    with Pair eq show ?thesis by simp
  next
    case (Inr ok)
    have "PRE_INSTALL_RUNNED (snd (run_cmds h c' True st2)) = PRE_INSTALL_RUNNED st2" by simp
    with Pair Inr eq show ?thesis
      by (cases "run_cmds h c' True st2") simp
  qed
qed

lemma flag_run_pre_install [simp]: "PRE_INSTALL_RUNNED (snd (run_pre_install h d st))"
proof (cases "PRE_INSTALL_RUNNED st")
  case True
  then show ?thesis by (simp add: run_pre_install_def)
next
  case False
  show ?thesis
  proof (cases "map_of PRE_INSTALL d")
    case None
    with False show ?thesis by (simp add: run_pre_install_def)
  next
    case (Some c)
    with False show ?thesis
      using flag_confirm_run [where c = c and st = "st\<lparr>PRE_INSTALL_RUNNED := True\<rparr>"
                                and h = h and c' = c]
      by (simp add: run_pre_install_def)
  qed
qed

text \<open>
  C9. Whatever a call of \<open>run_pre_install\<close> does (return true or false, or raise at
  the prompt), the flag \<open>PRE_INSTALL_RUNNED\<close> is set in the state it leaves; and a call
  in a state where the flag is set returns true and leaves the state as it is: no prompt,
  no command, for any distribution.
\<close>

theorem run_pre_install_sets_flag_first:
  "PRE_INSTALL_RUNNED (snd (run_pre_install h distro st))
   \<and> (PRE_INSTALL_RUNNED later \<longrightarrow> run_pre_install h distro' later = (Inr True, later))"
proof
  show "PRE_INSTALL_RUNNED (snd (run_pre_install h distro st))" by (rule flag_run_pre_install)
  show "PRE_INSTALL_RUNNED later \<longrightarrow> run_pre_install h distro' later = (Inr True, later)"
    by (simp add: run_pre_install_def)
qed

lemma example_declined:
  "run_pre_install example_host ''tails'' (example_state [Line ''No''])
     = (Inr False,
        (example_state [Line ''No''])
          \<lparr>stdin := [], PRE_INSTALL_RUNNED := True,
           trace := [Prompt (ask_prompt
                       (''Those commands will be executed:'' @ [CHR 0x0A, CHR 0x09] @ CL_YELLOW
                          @ ''sudo'' @ CL_NORM @ '' apt -q update -y '' @ [CHR 0x0A, CHR 0x0A]
                          @ ''Do you want to execute them?''))]\<rparr>)"
  by (simp add: run_pre_install_def PRE_INSTALL_def ask_execute_seq_def ask.simps input_def
        example_state_def lstrip_def startswith_def isspace_def YES_def NO_def)

theorem run_pre_install_sets_flag_first_witness:
  "fst (run_pre_install example_host ''tails'' (example_state [Line ''No''])) = Inr False
   \<and> PRE_INSTALL_RUNNED (snd (run_pre_install example_host ''tails'' (example_state [Line ''No''])))
   \<and> run_pre_install example_host ''tails''
         (snd (run_pre_install example_host ''tails'' (example_state [Line ''No''])))
       = (Inr True, snd (run_pre_install example_host ''tails'' (example_state [Line ''No''])))"
  using run_pre_install_sets_flag_first
          [of example_host "''tails''" "example_state [Line ''No'']"
              "snd (run_pre_install example_host ''tails'' (example_state [Line ''No'']))"
              "''tails''"]
  by (simp add: example_declined)

section \<open>All packages satisfied\<close>

lemma probe_loop_all_satisfied:
  "all_satisfied h pkgs st \<Longrightarrow>
     fst (probe_loop h pkgs acc st) = acc
     \<and> trace (snd (probe_loop h pkgs acc st))
         = trace st @ map (\<lambda>pkg. Exec (probe_cmd (PKGS_CHECK pkg)) False (probe_code (PKGS_CHECK pkg)))
                          pkgs"
proof (induction pkgs arbitrary: st)
  case Nil
  show ?case by simp
next
  case (Cons p ps)
  obtain k out err st1 where
    r: "run_cmd h (Some (probe_cmd (PKGS_CHECK p))) False st = ((k, out, err), st1)"
    by (cases "run_cmd h (Some (probe_cmd (PKGS_CHECK p))) False st") auto
  from Cons.prems r have k: "k = probe_code (PKGS_CHECK p)" and s: "all_satisfied h ps st1"
    by simp_all
  have t: "trace st1 = trace st @ [Exec (probe_cmd (PKGS_CHECK p)) False k]"
    by (rule run_cmd_trace [OF r])
  have c: "(case PKGS_CHECK p of Check c \<Rightarrow> (c, 0) | CheckCode c r \<Rightarrow> (c, r))
             = (probe_cmd (PKGS_CHECK p), probe_code (PKGS_CHECK p))"
    by (cases "PKGS_CHECK p") simp_all
  from Cons.IH [OF s] r k t c show ?case by simp
qed

lemma get_os_info_frame:
  "get_os_info h st = (r, st1) \<Longrightarrow> stdin st1 = stdin st \<and> trace st1 = trace st"
  by (auto simp: get_os_info_def split: option.splits sum.splits)

text \<open>
  C7. Once the distribution is known, if every package of the registry is satisfied then
  \<open>check_deps\<close> returns true, reads nothing from the user, and all it does is run each
  availability command once, in registry order: it prints nothing and shows no prompt.
\<close>

theorem check_deps_all_satisfied:
  assumes "get_os_info h st = (Inr (os_name, distro), st1)"
      and "all_satisfied h (PKGS (TMP_DIR (token h))) st1"
  shows "fst (check_deps h st) = Inr True
       \<and> stdin (snd (check_deps h st)) = stdin st
       \<and> trace (snd (check_deps h st))
           = trace st @ map (\<lambda>pkg. Exec (probe_cmd (PKGS_CHECK pkg)) False
                                       (probe_code (PKGS_CHECK pkg)))
                            (PKGS (TMP_DIR (token h)))"
proof -
  let ?pkgs = "PKGS (TMP_DIR (token h))"
  obtain st2 where p: "probe_loop h ?pkgs [] st1 = ([], st2)"
    using probe_loop_all_satisfied [OF assms(2), of "[]"]
    by (cases "probe_loop h ?pkgs [] st1") simp
  have t2: "trace st2 = trace st1 @ map (\<lambda>pkg. Exec (probe_cmd (PKGS_CHECK pkg)) False
                                       (probe_code (PKGS_CHECK pkg))) ?pkgs"
    using probe_loop_all_satisfied [OF assms(2), of "[]"] p by simp
  have s2: "stdin st2 = stdin st1"
    using stdin_probe_loop [of h ?pkgs "[]" st1] p by simp
  have l: "check_deps_loop h ?pkgs distro False st1 = (Inr True, st2)"
    by (subst check_deps_loop.simps) (simp add: p)
  have c: "check_deps h st = (Inr True, st2)"
    using assms(1) l by (simp add: check_deps_def)
  from get_os_info_frame [OF assms(1)] t2 s2 c show ?thesis by simp
qed

lemma lower_Linux: "lower ''Linux'' = ''linux''"
  by code_simp

lemma example_os_info:
  "get_os_info example_host (example_state ks)
     = (Inr (''linux'', ''#1 SMP''),
        (example_state ks)\<lparr>os_info_cache := Some (''linux'', ''#1 SMP'')\<rparr>)"
  by (simp add: get_os_info_def get_os_info_wrapped_def linux_distro_def example_host_def
       example_state_def lower_Linux startswith_def)

lemma example_all_satisfied:
  "all_satisfied example_host (PKGS (TMP_DIR (token example_host)))
     ((example_state ks)\<lparr>os_info_cache := Some (''linux'', ''#1 SMP'')\<rparr>)"
  by (simp add: PKGS_def run_cmd.simps example_host_def example_state_def)

theorem check_deps_all_satisfied_witness:
  "fst (check_deps example_host (example_state [])) = Inr True
   \<and> stdin (snd (check_deps example_host (example_state []))) = []
   \<and> trace (snd (check_deps example_host (example_state [])))
       = [Exec ''gpg --version'' False 0, Exec ''argon2 -h'' False 1, Exec ''ykman --help'' False 0]"
  using check_deps_all_satisfied [OF example_os_info example_all_satisfied, of "[]"]
  by (simp add: PKGS_def example_state_def)

section \<open>The pre-install step runs at most once\<close>

lemma exec_count_append [simp]: "exec_count c (xs @ ys) = exec_count c xs + exec_count c ys"
  by (simp add: exec_count_def)

lemma exec_count_simps [simp]:
  "exec_count c [] = 0"
  "exec_count c (Print s # tr) = exec_count c tr"
  "exec_count c (Prompt s # tr) = exec_count c tr"
  "exec_count c (Exec x i k # tr) = (if x = c then 1 else 0) + exec_count c tr"
  by (simp_all add: exec_count_def)

lemma pb_print [simp]: "pre_bound c (print s st) = pre_bound c st"
  by (simp add: pre_bound_def print_def)

lemma pb_input [simp]: "pre_bound c (snd (input p st)) = pre_bound c st"
  by (simp add: pre_bound_def input_def split: list.splits key.splits)

lemma pb_ask_continue [simp]: "pre_bound c (snd (ask_continue st)) = pre_bound c st"
proof (cases "input (''Press '' @ CL_GREEN @ ''Enter'' @ CL_NORM @ '' when you are ready: '') st")
  case (Pair r st1)
  have "pre_bound c st1 = pre_bound c st"
    using pb_input [of c "''Press '' @ CL_GREEN @ ''Enter'' @ CL_NORM @ '' when you are ready: ''" st]
    unfolding Pair by simp
  with Pair show ?thesis by (cases r) (simp_all add: ask_continue_def)
qed

lemma pb_ask [simp]: "pre_bound c (snd (ask p st)) = pre_bound c st"
proof (induction "stdin st" arbitrary: st)
  case Nil
  then show ?case by (simp add: ask_eof pre_bound_def)
next
  case (Cons k r)
  from Cons(2) have eq: "stdin st = k # r" by simp
  show ?case
  proof (cases k)
    case CtrlC
    with eq show ?thesis by (simp add: ask_ctrlc [of st r] pre_bound_def)
  next
    case (Line s)
    let ?st1 = "st\<lparr>stdin := r, trace := trace st @ [Prompt (ask_prompt p)]\<rparr>"
    have 1: "pre_bound c ?st1 = pre_bound c st" by (simp add: pre_bound_def)
    have "pre_bound c (snd (ask p (print PLEASE_TYPE ?st1))) = pre_bound c st"
      using Cons(1) [of "print PLEASE_TYPE ?st1"] 1 by simp
    with eq Line 1 show ?thesis
      by (simp add: ask_line [of st s r] Let_def)
  qed
qed

lemma pb_ask_execute [simp]: "pre_bound c (snd (ask_execute cs st)) = pre_bound c st"
  by (cases cs) (simp_all add: ask_execute_seq_def)

lemma pb_print_needed [simp]: "pre_bound c (print_needed xs st) = pre_bound c st"
proof -
  have "pre_bound c (fold (\<lambda>pkg. print (f pkg)) xs s) = pre_bound c s"
    for f :: "pkg \<Rightarrow> string" and s :: "'a state"
    by (induction xs arbitrary: s) simp_all
  then show ?thesis by (simp add: print_needed_def)
qed

lemma pb_run_cmd:
  "pre_bound c (snd (run_cmd h (Some x) i st)) = pre_bound c st + (if x = c then 1 else 0)"
proof -
  obtain k out err st1 where r: "run_cmd h (Some x) i st = ((k, out, err), st1)"
    by (cases "run_cmd h (Some x) i st") auto
  have f: "PRE_INSTALL_RUNNED st1 = PRE_INSTALL_RUNNED st"
    using flag_run_cmd [of h "Some x" i st] unfolding r by simp
  from run_cmd_trace [OF r] f r show ?thesis by (simp add: pre_bound_def)
qed

lemma pb_run_cmds_loop:
  "pre_bound c (snd (run_cmds_loop h cs i st)) \<le> pre_bound c st + count_list cs c"
proof (induction cs arbitrary: st)
  case Nil
  show ?case by simp
next
  case (Cons x xs)
  define d :: nat where "d = (if x = c then 1 else 0)"
  have cl: "count_list (x # xs) c = d + count_list xs c" by (simp add: d_def)
  show ?case
  proof (cases "startswith (strip x) ''#''")
    case True
    then have "run_cmds_loop h (x # xs) i st = run_cmds_loop h xs i st" by simp
    with Cons [of st] cl show ?thesis by simp
  next
    case False
    obtain k out err st1 where r: "run_cmd h (Some x) i st = ((k, out, err), st1)"
      by (cases "run_cmd h (Some x) i st") auto
    have b: "pre_bound c st1 = pre_bound c st + d"
      using pb_run_cmd [of c h x i st] unfolding r d_def by simp
    show ?thesis
    proof (cases "k = 0")
      case True
      with False r have "run_cmds_loop h (x # xs) i st = run_cmds_loop h xs i st1" by simp
      with Cons [of st1] b cl show ?thesis by simp
    next
      case nz: False
      with False r have "run_cmds_loop h (x # xs) i st = (k, st1)" by simp
      with b cl show ?thesis by simp
    qed
  qed
qed

lemma pb_run_cmds:
  "pre_bound c (snd (run_cmds h cs i st)) \<le> pre_bound c st + count_list (cmds_list cs) c"
  by (simp add: run_cmds_run_cmds_loop pb_run_cmds_loop)

lemma pb_probe_loop:
  "c \<notin> (\<lambda>pkg. probe_cmd (PKGS_CHECK pkg)) ` set pkgs \<Longrightarrow>
     pre_bound c (snd (probe_loop h pkgs acc st)) = pre_bound c st"
proof (induction pkgs arbitrary: acc st)
  case Nil
  show ?case by simp
next
  case (Cons p ps)
  obtain k out err st1 where
    r: "run_cmd h (Some (probe_cmd (PKGS_CHECK p))) False st = ((k, out, err), st1)"
    by (cases "run_cmd h (Some (probe_cmd (PKGS_CHECK p))) False st") auto
  have b: "pre_bound c st1 = pre_bound c st"
    using pb_run_cmd [of c h "probe_cmd (PKGS_CHECK p)" False st] Cons.prems unfolding r by auto
  have c: "(case PKGS_CHECK p of Check c \<Rightarrow> (c, 0) | CheckCode c r \<Rightarrow> (c, r))
             = (probe_cmd (PKGS_CHECK p), probe_code (PKGS_CHECK p))"
    by (cases "PKGS_CHECK p") simp_all
  from Cons.prems have "c \<notin> (\<lambda>pkg. probe_cmd (PKGS_CHECK pkg)) ` set ps" by simp
  from Cons.IH [OF this] b r c show ?case by simp
qed


text \<open>The commands of the install recipes of a list of packages, for every distribution.\<close>

lemma recipe_cmds_mono: "set xs \<subseteq> set ys \<Longrightarrow> recipe_cmds xs \<subseteq> recipe_cmds ys"
  unfolding recipe_cmds_def by blast

lemma install_deps_commands_subset:
  "install_deps_commands distro deps acc = Inr cs \<Longrightarrow> set cs \<subseteq> set acc \<union> recipe_cmds deps"
proof (induction deps arbitrary: acc)
  case Nil
  then show ?case by simp
next
  case (Cons dep deps)
  show ?case
  proof (cases "map_of (PKGS_ISNTALL dep) distro")
    case None
    with Cons.prems show ?thesis by simp
  next
    case (Some c)
    then have m: "(distro, c) \<in> set (PKGS_ISNTALL dep)" by (rule map_of_SomeD)
    then have sub: "set (cmds_list c) \<subseteq> recipe_cmds (dep # deps)"
      unfolding recipe_cmds_def by fastforce
    have mono: "recipe_cmds deps \<subseteq> recipe_cmds (dep # deps)"
      by (rule recipe_cmds_mono) auto
    show ?thesis
    proof (cases c)
      case CmdsNone
      with Some Cons.prems show ?thesis by simp
    next
      case (CmdsStr x)
      with Some Cons.prems have "install_deps_commands distro deps (acc @ [x]) = Inr cs" by simp
      from Cons.IH [OF this] sub mono CmdsStr show ?thesis by auto
    next
      case (CmdsSeq xs)
      with Some Cons.prems have "install_deps_commands distro deps (acc @ xs) = Inr cs" by simp
      from Cons.IH [OF this] sub mono CmdsSeq show ?thesis by auto
    qed
  qed
qed

lemma pb_install_deps:
  assumes "c \<notin> recipe_cmds deps"
  shows "pre_bound c (snd (install_deps h distro deps st)) \<le> pre_bound c st"
proof (cases "install_deps_commands distro deps []")
  case (Inl e)
  then show ?thesis by (simp add: install_deps_def)
next
  case (Inr cs)
  from install_deps_commands_subset [OF Inr] assms have "c \<notin> set cs" by auto
  then have z: "count_list cs c = 0" by (simp add: count_list_0_iff)
  obtain r st1 where a: "ask_execute (CmdsSeq cs) st = (r, st1)"
    by (cases "ask_execute (CmdsSeq cs) st") auto
  have b1: "pre_bound c st1 = pre_bound c st"
    using pb_ask_execute [of c "CmdsSeq cs" st] unfolding a by simp
  show ?thesis
  proof (cases r)
    case (Inl e)
    with Inr a b1 show ?thesis by (simp add: install_deps_def)
  next
    case ok: (Inr ok)
    obtain k st2 where rc: "run_cmds h (CmdsSeq cs) True st1 = (k, st2)"
      by (cases "run_cmds h (CmdsSeq cs) True st1") auto
    have "pre_bound c st2 \<le> pre_bound c st1"
      using pb_run_cmds [of c h "CmdsSeq cs" True st1] z unfolding rc by simp
    with Inr a b1 ok rc show ?thesis by (simp add: install_deps_def)
  qed
qed

lemma pb_run_pre_install:
  "pre_bound c (snd (run_pre_install h distro st)) \<le> pre_bound c st"
proof (cases "PRE_INSTALL_RUNNED st")
  case True
  then show ?thesis by (simp add: run_pre_install_def)
next
  case False
  let ?st1 = "st\<lparr>PRE_INSTALL_RUNNED := True\<rparr>"
  from False have b0: "pre_bound c ?st1 + 1 = pre_bound c st" by (simp add: pre_bound_def)
  show ?thesis
  proof (cases "map_of PRE_INSTALL distro")
    case None
    with False b0 show ?thesis by (simp add: run_pre_install_def)
  next
    case (Some cs)
    then have cs: "count_list (cmds_list cs) c \<le> 1"
      by (auto simp: PRE_INSTALL_def split: if_splits)
    obtain r st2 where a: "ask_execute cs ?st1 = (r, st2)"
      by (cases "ask_execute cs ?st1") auto
    have b1: "pre_bound c st2 = pre_bound c ?st1"
      using pb_ask_execute [of c cs ?st1] unfolding a by simp
    show ?thesis
    proof (cases r)
      case (Inl e)
      with False Some a b1 b0 show ?thesis by (simp add: run_pre_install_def)
    next
      case ok: (Inr ok)
      obtain k st3 where rc: "run_cmds h cs True st2 = (k, st3)"
        by (cases "run_cmds h cs True st2") auto
      have "pre_bound c st3 \<le> pre_bound c st2 + 1"
        using pb_run_cmds [of c h cs True st2] cs unfolding rc by simp
      with False Some a b1 b0 ok rc show ?thesis by (simp add: run_pre_install_def)
    qed
  qed
qed

lemma probe_loop_subset: "set (fst (probe_loop h pkgs acc st)) \<subseteq> set acc \<union> set pkgs"
proof (induction pkgs arbitrary: acc st)
  case Nil
  show ?case by simp
next
  case (Cons p ps)
  obtain k out err st1 where
    r: "run_cmd h (Some (probe_cmd (PKGS_CHECK p))) False st = ((k, out, err), st1)"
    by (cases "run_cmd h (Some (probe_cmd (PKGS_CHECK p))) False st") auto
  have c: "(case PKGS_CHECK p of Check c \<Rightarrow> (c, 0) | CheckCode c r \<Rightarrow> (c, r))
             = (probe_cmd (PKGS_CHECK p), probe_code (PKGS_CHECK p))"
    by (cases "PKGS_CHECK p") simp_all
  from Cons [of "acc @ [p]" st1] Cons [of acc st1] r c show ?case by auto
qed


lemma pb_check_deps_loop:
  assumes pc: "c \<notin> (\<lambda>pkg. probe_cmd (PKGS_CHECK pkg)) ` set pkgs"
      and rc: "c \<notin> recipe_cmds pkgs"
  shows "pre_bound c (snd (check_deps_loop h pkgs distro recheck st)) \<le> pre_bound c st"
  using pc rc
proof (induction h pkgs distro recheck st rule: check_deps_loop.induct)
  case (1 h pkgs distro recheck st)
  note pc = "1.prems"(1) and rc = "1.prems"(2)
  obtain ti st1 where p: "probe_loop h pkgs [] st = (ti, st1)"
    by (cases "probe_loop h pkgs [] st") auto
  have b1: "pre_bound c st1 = pre_bound c st"
    using pb_probe_loop [OF pc, of h "[]" st] unfolding p by simp
  have ti: "set ti \<subseteq> set pkgs"
    using probe_loop_subset [of h pkgs "[]" st] unfolding p by simp
  show ?case
  proof (cases "length ti = 0")
    case True
    with p have "check_deps_loop h pkgs distro recheck st = (Inr True, st1)"
      by (subst check_deps_loop.simps) simp
    with b1 show ?thesis by simp
  next
    case nz: False
    let ?st2 = "if \<not> recheck then print_needed ti st1 else st1"
    have b2: "pre_bound c ?st2 = pre_bound c st" using b1 by simp
    obtain au ma where cc: "chek_can_install ti distro = (au, ma)"
      by (cases "chek_can_install ti distro") auto
    have au: "set au \<subseteq> set pkgs"
      using cc ti by (auto simp: chek_can_install_def chek_can_install_loop_filter)
    have rau: "c \<notin> recipe_cmds au" using recipe_cmds_mono [OF au] rc by auto
    show ?thesis
    proof (cases "length ma \<noteq> 0")
      case man: True
      let ?st3 = "if length au = 0
                  then print ''They cannot be install automatically on current system'' ?st2
                  else print (''Those packages cannot be install automatically on current system:''
                                @ [CHR 0x0A, CHR 0x09] @ CL_YELLOW
                                @ join '' '' (map PKGS_NAME ma) @ CL_NORM) ?st2"
      have b3: "pre_bound c ?st3 = pre_bound c st" using b2 by simp
      obtain r4 st4 where ac: "ask_continue (print MANUAL_MSG ?st3) = (r4, st4)"
        by (cases "ask_continue (print MANUAL_MSG ?st3)") auto
      have b4: "pre_bound c st4 = pre_bound c st"
        using pb_ask_continue [of c "print MANUAL_MSG ?st3"] b3 unfolding ac by simp
      show ?thesis
      proof (cases r4)
        case (Inl e)
        with p nz cc man ac have "check_deps_loop h pkgs distro recheck st = (Inl e, st4)"
          by (subst check_deps_loop.simps) (simp add: Let_def)
        with b4 show ?thesis by simp
      next
        case (Inr u)
        with p nz cc man ac
        have e: "check_deps_loop h pkgs distro recheck st = check_deps_loop h pkgs distro True st4"
          by (subst check_deps_loop.simps) (simp add: Let_def)
        have "pre_bound c (snd (check_deps_loop h pkgs distro True st4)) \<le> pre_bound c st4"
          by (rule "1.IH"(1) [OF p [symmetric] nz refl cc [symmetric] man refl ac [symmetric] Inr pc rc])
        with e b4 show ?thesis by simp
      qed
    next
      case nman: False
      obtain r3 st3 where a: "ask ''Do you want to install them?''
                                (print ''They can be install automatically'' ?st2) = (r3, st3)"
        by (cases "ask ''Do you want to install them?''
                     (print ''They can be install automatically'' ?st2)") auto
      have b3: "pre_bound c st3 = pre_bound c st"
        using pb_ask [of c "''Do you want to install them?''"
                         "print ''They can be install automatically'' ?st2"] b2
        unfolding a by simp
      show ?thesis
      proof (cases r3)
        case (Inl e)
        with p nz cc nman a have "check_deps_loop h pkgs distro recheck st = (Inl e, st3)"
          by (subst check_deps_loop.simps) (simp add: Let_def)
        with b3 show ?thesis by simp
      next
        case yes: (Inr yes)
        show ?thesis
        proof (cases yes)
          case False
          obtain r4 st4 where ac: "ask_continue (print MANUAL_MSG st3) = (r4, st4)"
            by (cases "ask_continue (print MANUAL_MSG st3)") auto
          have b4: "pre_bound c st4 = pre_bound c st"
            using pb_ask_continue [of c "print MANUAL_MSG st3"] b3 unfolding ac by simp
          show ?thesis
          proof (cases r4)
            case (Inl e)
            with p nz cc nman a yes False ac
            have "check_deps_loop h pkgs distro recheck st = (Inl e, st4)"
              by (subst check_deps_loop.simps) (simp add: Let_def)
            with b4 show ?thesis by simp
          next
            case (Inr u)
            with p nz cc nman a yes False ac
            have e: "check_deps_loop h pkgs distro recheck st
                       = check_deps_loop h pkgs distro False st4"
              by (subst check_deps_loop.simps) (simp add: Let_def)
            have "pre_bound c (snd (check_deps_loop h pkgs distro False st4)) \<le> pre_bound c st4"
              by (rule "1.IH"(2) [OF p [symmetric] nz refl cc [symmetric] nman a [symmetric] yes
                         False ac [symmetric] Inr pc rc])
            with e b4 show ?thesis by simp
          qed
        next
          case True
          then have nn: "\<not> \<not> yes" by simp
          obtain r4 st4 where pr: "run_pre_install h distro st3 = (r4, st4)"
            by (cases "run_pre_install h distro st3") auto
          have b4: "pre_bound c st4 \<le> pre_bound c st"
            using pb_run_pre_install [of c h distro st3] b3 unfolding pr by simp
          show ?thesis
          proof (cases r4)
            case (Inl e)
            with p nz cc nman a yes True pr
            have "check_deps_loop h pkgs distro recheck st = (Inl e, st4)"
              by (subst check_deps_loop.simps) (simp add: Let_def)
            with b4 show ?thesis by simp
          next
            case pre: (Inr pre_ok)
            show ?thesis
            proof (cases pre_ok)
              case False
              with p nz cc nman a yes True pr pre
              have "check_deps_loop h pkgs distro recheck st = (Inr False, print FAILED_MSG st4)"
                by (subst check_deps_loop.simps) (simp add: Let_def)
              with b4 show ?thesis by simp
            next
              case pt: True
              then have npt: "\<not> \<not> pre_ok" by simp
              obtain r5 st5 where ins: "install_deps h distro au st4 = (r5, st5)"
                by (cases "install_deps h distro au st4") auto
              have b5: "pre_bound c st5 \<le> pre_bound c st"
                using pb_install_deps [OF rau, of h distro st4] b4 unfolding ins by simp
              show ?thesis
              proof (cases r5)
                case (Inl e)
                with p nz cc nman a yes True pr pre pt ins
                have "check_deps_loop h pkgs distro recheck st = (Inl e, st5)"
                  by (subst check_deps_loop.simps) (simp add: Let_def)
                with b5 show ?thesis by simp
              next
                case ok: (Inr ok)
                show ?thesis
                proof (cases ok)
                  case False
                  with p nz cc nman a yes True pr pre pt ins ok
                  have "check_deps_loop h pkgs distro recheck st
                          = (Inr False, print FAILED_MSG st5)"
                    by (subst check_deps_loop.simps) (simp add: Let_def)
                  with b5 show ?thesis by simp
                next
                  case ot: True
                  then have not: "\<not> \<not> ok" by simp
                  from p nz cc nman a yes True pr pre pt ins ok ot
                  have e: "check_deps_loop h pkgs distro recheck st
                             = check_deps_loop h pkgs distro False st5"
                    by (subst check_deps_loop.simps) (simp add: Let_def)
                  have "pre_bound c (snd (check_deps_loop h pkgs distro False st5))
                          \<le> pre_bound c st5"
                    by (rule "1.IH"(3) [OF p [symmetric] nz refl cc [symmetric] nman a [symmetric]
                               yes nn pr [symmetric] pre npt ins [symmetric] ok not pc rc])
                  with e b5 show ?thesis by simp
                qed
              qed
            qed
          qed
        qed
      qed
    qed
  qed
qed


lemma PRE_INSTALL_cmds:
  "(\<Union>(d, cs) \<in> set PRE_INSTALL. set (cmds_list cs)) = {''sudo apt -q update -y ''}"
  by (simp add: PRE_INSTALL_def)

lemma PKGS_probe_cmds:
  "''sudo apt -q update -y '' \<notin> (\<lambda>pkg. probe_cmd (PKGS_CHECK pkg)) ` set (PKGS tmp)"
  by (simp add: PKGS_def)

lemma PKGS_recipe_cmds: "''sudo apt -q update -y '' \<notin> recipe_cmds (PKGS tmp)"
  by (simp add: PKGS_def recipe_cmds_def)

text \<open>
  C3. In a run of the provisioning loop, however many times it goes round and for every
  distribution, each command of the pre-install table is handed to the shell at most once.
  And for a distribution without an entry in the table, \<open>run_pre_install\<close> returns true
  and changes nothing but the once-flag: no prompt, no command.
\<close>

theorem pre_install_at_most_once:
  "(\<forall>c \<in> (\<Union>(d, cs) \<in> set PRE_INSTALL. set (cmds_list cs)).
       exec_count c (trace (snd (check_deps_loop h (PKGS tmp) distro recheck st)))
         \<le> exec_count c (trace st) + 1)
   \<and> (map_of PRE_INSTALL distro = None \<longrightarrow>
         run_pre_install h distro st = (Inr True, st\<lparr>PRE_INSTALL_RUNNED := True\<rparr>))"
proof
  let ?c = "''sudo apt -q update -y ''"
  let ?st' = "snd (check_deps_loop h (PKGS tmp) distro recheck st)"
  have "exec_count ?c (trace ?st') \<le> pre_bound ?c ?st'" by (simp add: pre_bound_def)
  also have "\<dots> \<le> pre_bound ?c st"
    by (rule pb_check_deps_loop [OF PKGS_probe_cmds PKGS_recipe_cmds])
  also have "\<dots> \<le> exec_count ?c (trace st) + 1" by (simp add: pre_bound_def)
  finally have "exec_count ?c (trace ?st') \<le> exec_count ?c (trace st) + 1" .
  then show "\<forall>c \<in> (\<Union>(d, cs) \<in> set PRE_INSTALL. set (cmds_list cs)).
       exec_count c (trace ?st') \<le> exec_count c (trace st) + 1"
    unfolding PRE_INSTALL_cmds by simp
next
  show "map_of PRE_INSTALL distro = None \<longrightarrow>
         run_pre_install h distro st = (Inr True, st\<lparr>PRE_INSTALL_RUNNED := True\<rparr>)"
    by (simp add: run_pre_install_def)
qed

lemma bare_run:
  "exec_count ''sudo apt -q update -y ''
     (trace (snd (check_deps_loop bare_host (PKGS (TMP_DIR (token bare_host))) ''tails'' False
                    (example_state [Line ''Yes'', Line ''Yes'', Line ''Yes'',
                                    Line ''Yes'', Line ''Yes''])))) = 1
   \<and> exec_count ''sudo apt -qq install -y argon2''
     (trace (snd (check_deps_loop bare_host (PKGS (TMP_DIR (token bare_host))) ''tails'' False
                    (example_state [Line ''Yes'', Line ''Yes'', Line ''Yes'',
                                    Line ''Yes'', Line ''Yes''])))) = 2"
  by (simp add: check_deps_loop.simps ask.simps input_def PKGS_def bare_host_def example_state_def
        run_cmd.simps chek_can_install_def print_needed_def print_def run_pre_install_def
        install_deps_def PRE_INSTALL_def ask_execute_seq_def YES_def NO_def ask_continue_def
        strip_def lstrip_def rstrip_def startswith_def isspace_def Let_def)


theorem pre_install_at_most_once_witness:
  "''sudo apt -q update -y '' \<in> (\<Union>(d, cs) \<in> set PRE_INSTALL. set (cmds_list cs))
   \<and> exec_count ''sudo apt -q update -y ''
        (trace (snd (check_deps_loop bare_host (PKGS (TMP_DIR (token bare_host))) ''tails'' False
                       (example_state [Line ''Yes'', Line ''Yes'', Line ''Yes'',
                                       Line ''Yes'', Line ''Yes'']))))
       \<le> exec_count ''sudo apt -q update -y ''
             (trace (example_state [Line ''Yes'', Line ''Yes'', Line ''Yes'',
                                    Line ''Yes'', Line ''Yes''])) + 1
   \<and> exec_count ''sudo apt -qq install -y argon2''
        (trace (snd (check_deps_loop bare_host (PKGS (TMP_DIR (token bare_host))) ''tails'' False
                       (example_state [Line ''Yes'', Line ''Yes'', Line ''Yes'',
                                       Line ''Yes'', Line ''Yes''])))) = 2
   \<and> map_of PRE_INSTALL ''debian'' = None
   \<and> run_pre_install example_host ''debian'' (example_state [])
       = (Inr True, (example_state [])\<lparr>PRE_INSTALL_RUNNED := True\<rparr>)"
proof -
  have m: "''sudo apt -q update -y '' \<in> (\<Union>(d, cs) \<in> set PRE_INSTALL. set (cmds_list cs))"
    by (simp add: PRE_INSTALL_def)
  have n: "map_of PRE_INSTALL ''debian'' = None" by (simp add: PRE_INSTALL_def)
  from pre_install_at_most_once
         [of bare_host "TMP_DIR (token bare_host)" "''tails''" False
             "example_state [Line ''Yes'', Line ''Yes'', Line ''Yes'', Line ''Yes'', Line ''Yes'']"]
  have 1: "exec_count ''sudo apt -q update -y ''
        (trace (snd (check_deps_loop bare_host (PKGS (TMP_DIR (token bare_host))) ''tails'' False
                       (example_state [Line ''Yes'', Line ''Yes'', Line ''Yes'',
                                       Line ''Yes'', Line ''Yes'']))))
       \<le> exec_count ''sudo apt -q update -y ''
             (trace (example_state [Line ''Yes'', Line ''Yes'', Line ''Yes'',
                                    Line ''Yes'', Line ''Yes''])) + 1"
    by (elim conjE) (drule bspec [OF _ m], assumption)
  from pre_install_at_most_once [of example_host tmp "''debian''" recheck "example_state []"] n
  have 2: "run_pre_install example_host ''debian'' (example_state [])
       = (Inr True, (example_state [])\<lparr>PRE_INSTALL_RUNNED := True\<rparr>)"
    by (elim conjE) simp
  from bare_run have 3: "exec_count ''sudo apt -qq install -y argon2''
        (trace (snd (check_deps_loop bare_host (PKGS (TMP_DIR (token bare_host))) ''tails'' False
                       (example_state [Line ''Yes'', Line ''Yes'', Line ''Yes'',
                                       Line ''Yes'', Line ''Yes''])))) = 2"
    by (rule conjunct2)
  from m 1 3 n 2 show ?thesis by (intro conjI)
qed

section \<open>The distribution key of a Linux host\<close>

lemma split_no_sep: "c \<notin> set s \<Longrightarrow> split s c = [s]"
  by (induction s) auto

lemma split_not_Nil: "split s c \<noteq> []"
  by (induction s) (auto split: list.splits)

lemma hd_split: "hd (split s c) = takeWhile (\<lambda>x. x \<noteq> c) s"
  by (induction s) (auto split: list.splits simp: split_not_Nil)

lemma split_first_sep: "c \<notin> set a \<Longrightarrow> split (a @ c # b) c = a # split b c"
  by (induction a) (auto split: list.splits)

lemma takeWhile_twice:
  "takeWhile P (takeWhile Q xs) = takeWhile (\<lambda>x. Q x \<and> P x) xs"
  by (induction xs) auto

lemma linux_distro_hyphen:
  assumes "CHR ''-'' \<notin> set a"
  shows "linux_distro os_name (a @ ''-'' @ b)
           = Inr (os_name, lower (takeWhile (\<lambda>c. c \<noteq> CHR ''-'' \<and> c \<noteq> CHR '' '') b))"
proof -
  obtain v1 vs where s1: "split b CHR ''-'' = v1 # vs"
    using split_not_Nil [of b "CHR ''-''"] by (cases "split b CHR ''-''") auto
  with hd_split [of b "CHR ''-''"] have v1: "v1 = takeWhile (\<lambda>x. x \<noteq> CHR ''-'') b" by simp
  obtain w ws where s2: "split v1 CHR '' '' = w # ws"
    using split_not_Nil [of v1 "CHR '' ''"] by (cases "split v1 CHR '' ''") auto
  with hd_split [of v1 "CHR '' ''"] have w: "w = takeWhile (\<lambda>x. x \<noteq> CHR '' '') v1" by simp
  have "split (a @ ''-'' @ b) CHR ''-'' = a # v1 # vs"
    using split_first_sep [OF assms, of b] s1 by simp
  then have "linux_distro os_name (a @ ''-'' @ b) = Inr (os_name, lower w)"
    using s2 by (simp add: linux_distro_def)
  then show ?thesis unfolding w v1 takeWhile_twice .
qed

lemma linux_distro_no_hyphen:
  "CHR ''-'' \<notin> set ver \<Longrightarrow> linux_distro os_name ver = Inr (os_name, ver)"
  by (simp add: linux_distro_def split_no_sep)

lemma get_os_info_linux:
  assumes "os_info_cache st = None"
      and "lower (system h) = ''linux''"
      and "\<not> (contains (version h) ''Debian'' \<and> isdir (fs st) ''/etc/tails''
              \<and> isdir (fs st) ''/etc/amnesia'')
           \<or> (\<exists>login. getlogin h = Inr login \<and> login \<noteq> ''amnesia'')"
      and "linux_distro ''linux'' (version h) = Inr (''linux'', key)"
  shows "get_os_info h st = (Inr (''linux'', key), st\<lparr>os_info_cache := Some (''linux'', key)\<rparr>)"
proof -
  from assms(2,3,4) have "get_os_info_wrapped h st = Inr (''linux'', key)"
    by (auto simp: get_os_info_wrapped_def Let_def)
  with assms(1) show ?thesis by (simp add: get_os_info_def)
qed

lemma lower_example: "lower ''#1'' = ''#1''"
  by code_simp

text \<open>
  C2, as the specification states it, fails on a Linux host whose version string has no
  hyphen: \<open>get_os_info\<close> returns the whole string \<open>#1 SMP\<close>, not its first token \<open>#1\<close>.
\<close>

theorem get_os_info_fallback_counterexample:
  "fst (get_os_info example_host (example_state [])) = Inr (''linux'', ''#1 SMP'')
   \<and> spec_distro_key (version example_host) = ''#1''
   \<and> fst (get_os_info example_host (example_state []))
       \<noteq> Inr (''linux'', spec_distro_key (version example_host))"
proof -
  have 1: "fst (get_os_info example_host (example_state [])) = Inr (''linux'', ''#1 SMP'')"
    by (simp add: example_os_info)
  have 2: "spec_distro_key (version example_host) = ''#1''"
    by (simp add: spec_distro_key_def example_host_def isspace_def lower_example)
  from 1 2 show ?thesis by simp
qed

text \<open>
  C2, amended. On a Linux host that is not classified as Tails and where the detection
  does not raise, the first call of \<open>get_os_info\<close> returns and caches \<open>linux\<close> with this
  key: when the version string has a hyphen, the text after the first hyphen up to the
  next hyphen or space, in lower case; when it has none, the whole version string,
  letter case aside.
\<close>

theorem get_os_info_linux_key:
  assumes "os_info_cache st = None"
      and "lower (system h) = ''linux''"
      and "\<not> (contains (version h) ''Debian'' \<and> isdir (fs st) ''/etc/tails''
              \<and> isdir (fs st) ''/etc/amnesia'')
           \<or> (\<exists>login. getlogin h = Inr login \<and> login \<noteq> ''amnesia'')"
  shows "(version h = a @ ''-'' @ b \<and> CHR ''-'' \<notin> set a \<longrightarrow>
            get_os_info h st
              = (Inr (''linux'', lower (takeWhile (\<lambda>c. c \<noteq> CHR ''-'' \<and> c \<noteq> CHR '' '') b)),
                 st\<lparr>os_info_cache :=
                      Some (''linux'', lower (takeWhile (\<lambda>c. c \<noteq> CHR ''-'' \<and> c \<noteq> CHR '' '') b))\<rparr>))
       \<and> (CHR ''-'' \<notin> set (version h) \<longrightarrow>
            (\<exists>key. lower key = lower (version h)
                \<and> get_os_info h st
                    = (Inr (''linux'', key), st\<lparr>os_info_cache := Some (''linux'', key)\<rparr>)))"
proof (intro conjI impI)
  assume v: "version h = a @ ''-'' @ b \<and> CHR ''-'' \<notin> set a"
  then have "linux_distro ''linux'' (version h)
               = Inr (''linux'', lower (takeWhile (\<lambda>c. c \<noteq> CHR ''-'' \<and> c \<noteq> CHR '' '') b))"
    using linux_distro_hyphen [of a "''linux''" b] by simp
  from get_os_info_linux [OF assms this]
  show "get_os_info h st
          = (Inr (''linux'', lower (takeWhile (\<lambda>c. c \<noteq> CHR ''-'' \<and> c \<noteq> CHR '' '') b)),
             st\<lparr>os_info_cache :=
                  Some (''linux'', lower (takeWhile (\<lambda>c. c \<noteq> CHR ''-'' \<and> c \<noteq> CHR '' '') b))\<rparr>)" .
next
  assume "CHR ''-'' \<notin> set (version h)"
  then have "linux_distro ''linux'' (version h) = Inr (''linux'', version h)"
    by (rule linux_distro_no_hyphen)
  from get_os_info_linux [OF assms this]
  have "lower (version h) = lower (version h)
        \<and> get_os_info h st
            = (Inr (''linux'', version h), st\<lparr>os_info_cache := Some (''linux'', version h)\<rparr>)"
    by simp
  then show "\<exists>key. lower key = lower (version h)
                \<and> get_os_info h st
                    = (Inr (''linux'', key), st\<lparr>os_info_cache := Some (''linux'', key)\<rparr>)"
    by (rule exI)
qed

lemma lower_ubuntu: "lower ''Ubuntu'' = ''ubuntu''"
  by code_simp

theorem get_os_info_linux_key_witness:
  "get_os_info ubuntu_host (example_state [])
     = (Inr (''linux'', ''ubuntu''),
        (example_state [])\<lparr>os_info_cache := Some (''linux'', ''ubuntu'')\<rparr>)
   \<and> (\<exists>key. lower key = lower (version example_host)
         \<and> get_os_info example_host (example_state [])
             = (Inr (''linux'', key),
                (example_state [])\<lparr>os_info_cache := Some (''linux'', key)\<rparr>))"
proof
  have c: "os_info_cache (example_state []) = None" by (simp add: example_state_def)
  have l: "lower (system ubuntu_host) = ''linux''"
    by (simp add: ubuntu_host_def example_host_def lower_Linux)
  have n: "\<not> (contains (version ubuntu_host) ''Debian'' \<and> isdir (fs (example_state [])) ''/etc/tails''
              \<and> isdir (fs (example_state [])) ''/etc/amnesia'')
           \<or> (\<exists>login. getlogin ubuntu_host = Inr login \<and> login \<noteq> ''amnesia'')"
    by (simp add: ubuntu_host_def example_host_def)
  have v: "version ubuntu_host = ''#100~20.04.1'' @ ''-'' @ ''Ubuntu SMP Thu''
           \<and> CHR ''-'' \<notin> set ''#100~20.04.1''"
    by (simp add: ubuntu_host_def)
  from get_os_info_linux_key [OF c l n, of "''#100~20.04.1''" "''Ubuntu SMP Thu''"] v
  show "get_os_info ubuntu_host (example_state [])
     = (Inr (''linux'', ''ubuntu''),
        (example_state [])\<lparr>os_info_cache := Some (''linux'', ''ubuntu'')\<rparr>)"
    by (simp add: lower_ubuntu)
next
  have c: "os_info_cache (example_state []) = None" by (simp add: example_state_def)
  have l: "lower (system example_host) = ''linux''"
    by (simp add: example_host_def lower_Linux)
  have n: "\<not> (contains (version example_host) ''Debian'' \<and> isdir (fs (example_state [])) ''/etc/tails''
              \<and> isdir (fs (example_state [])) ''/etc/amnesia'')
           \<or> (\<exists>login. getlogin example_host = Inr login \<and> login \<noteq> ''amnesia'')"
    by (simp add: example_host_def)
  have v: "CHR ''-'' \<notin> set (version example_host)" by (simp add: example_host_def)
  from get_os_info_linux_key [OF c l n] v
  show "\<exists>key. lower key = lower (version example_host)
         \<and> get_os_info example_host (example_state [])
             = (Inr (''linux'', key),
                (example_state [])\<lparr>os_info_cache := Some (''linux'', key)\<rparr>)"
    by simp
qed

section \<open>The workspace directory\<close>

lemma mode_example: "(448 :: int) AND NOT 18 = 448"
  by simp

lemma TMP_DIR_example: "TMP_DIR (token example_host) = ''/tmp/YUBIKEY_SETUP_q0Zx''"
  by (simp add: TMP_DIR_def SCRIPT_NAME_def example_host_def)

lemma example_makedirs:
  "makedirs example_host (TMP_DIR (token example_host)) 448 (example_state ks)
     = (Inr (), (example_state ks)
                  \<lparr>fs := [(''/'', Dir 493), (''/tmp'', Dir 1023),
                           (''/tmp/YUBIKEY_SETUP_q0Zx'', Dir 448)]\<rparr>)"
  unfolding TMP_DIR_example
  by (simp add: makedirs_def mkdir_def example_host_def example_state_def)


lemma makedirs_mode:
  "makedirs h p mode st = (Inr u, st') \<Longrightarrow> map_of (fs st') p = Some (Dir (mode AND NOT (umask h)))"
  by (auto simp: makedirs_def mkdir_def map_add_def split: sum.splits option.splits)

lemma owner_only: "(448 AND NOT um) AND 63 = (0 :: int)"
proof -
  have "(448 AND NOT um) AND 63 = (448 AND 63) AND NOT um"
    by (simp add: and.assoc and.commute and.left_commute)
  then show ?thesis by simp
qed

lemma tmp_dir_released:
  assumes "tmp_dir fuel h body st = Some (Inr u, st')"
  shows "map_of (fs st') (TMP_DIR (token h)) = None"
proof (cases "makedirs h (TMP_DIR (token h)) 448 st")
  case (Pair r st1)
  show ?thesis
  proof (cases r)
    case (Inl e)
    with Pair assms show ?thesis by (simp add: tmp_dir_def)
  next
    case (Inr a)
    show ?thesis
    proof (cases "body st1")
      case b: (Pair rb st2)
      show ?thesis
      proof (cases rb)
        case (Inl e)
        with Pair Inr b assms show ?thesis by (simp add: tmp_dir_def)
      next
        case rb: (Inr c)
        with Pair Inr b assms
        have "fs_del fuel h (TMP_DIR (token h)) st2 = Some (Inr u, st')"
          by (simp add: tmp_dir_def)
        then show ?thesis by (rule fs_del_removes)
      qed
    qed
  qed
qed

lemma script_released:
  assumes "script fuel h st = Some (Inr u, st')"
  shows "map_of (fs st') (TMP_DIR (token h)) = None"
proof -
  let ?body = "\<lambda>s. case main h s of
                     (Inl e, s1) \<Rightarrow>
                       if e = KeyboardInterrupt
                       then (Inr (), print ([CHR 0x0A] @ CL_RED @ ''Interrupted by user'' @ CL_NORM) s1)
                       else (Inl e, s1)
                   | (Inr _, s1) \<Rightarrow> (Inr (), s1)"
  from assms obtain st1 where t: "tmp_dir fuel h ?body st = Some (Inr (), st1)"
    and s: "st' = print ([CHR 0x0A] @ ''Bye'') st1"
    by (auto simp: script_def split: option.splits sum.splits prod.splits)
  from tmp_dir_released [OF t] s show ?thesis by (simp add: print_def)
qed

lemma example_check_os:
  assumes "fs st = t" and "os_info_cache st = None" and "stdin st = []"
  shows "check_os example_host st
     = (Inl EOFError,
        st\<lparr>os_info_cache := Some (''linux'', ''#1 SMP''),
            trace := trace st @ [Print RECOMMEND_OS_MSG,
                       Prompt (ask_prompt ''Do your want to continue on current system'')]\<rparr>)"
proof -
  have "linux_distro ''linux'' (version example_host) = Inr (''linux'', ''#1 SMP'')"
    by (simp add: linux_distro_no_hyphen example_host_def)
  then have g: "get_os_info example_host st
           = (Inr (''linux'', ''#1 SMP''), st\<lparr>os_info_cache := Some (''linux'', ''#1 SMP'')\<rparr>)"
    by (intro get_os_info_linux assms) (simp_all add: example_host_def lower_Linux)
  let ?st2 = "print RECOMMEND_OS_MSG (st\<lparr>os_info_cache := Some (''linux'', ''#1 SMP'')\<rparr>)"
  have "stdin ?st2 = []" using assms(3) by simp
  from ask_eof [OF this, of "''Do your want to continue on current system''"]
  show ?thesis
    by (simp add: check_os_def g SUPPORTED_OS_def RECOMENDED_DISTROS_def print_def)
qed

lemma example_check_os_interrupted:
  assumes "os_info_cache st = None" and "stdin st = CtrlC # r"
  shows "check_os example_host st
     = (Inl KeyboardInterrupt,
        st\<lparr>stdin := r, os_info_cache := Some (''linux'', ''#1 SMP''),
            trace := trace st @ [Print RECOMMEND_OS_MSG,
                       Prompt (ask_prompt ''Do your want to continue on current system'')]\<rparr>)"
proof -
  have "linux_distro ''linux'' (version example_host) = Inr (''linux'', ''#1 SMP'')"
    by (simp add: linux_distro_no_hyphen example_host_def)
  then have g: "get_os_info example_host st
           = (Inr (''linux'', ''#1 SMP''), st\<lparr>os_info_cache := Some (''linux'', ''#1 SMP'')\<rparr>)"
    by (intro get_os_info_linux assms) (simp_all add: example_host_def lower_Linux)
  let ?st2 = "print RECOMMEND_OS_MSG (st\<lparr>os_info_cache := Some (''linux'', ''#1 SMP'')\<rparr>)"
  have "stdin ?st2 = CtrlC # r" using assms(2) by simp
  from ask_ctrlc [OF this, of "''Do your want to continue on current system''"]
  show ?thesis
    by (simp add: check_os_def g SUPPORTED_OS_def RECOMENDED_DISTROS_def print_def)
qed

lemma example_fs_del:
  "fs st = [(''/'', Dir 493), (''/tmp'', Dir 1023), (''/tmp/YUBIKEY_SETUP_q0Zx'', Dir 448)] \<Longrightarrow>
     fs_del (Suc (Suc n)) h ''/tmp/YUBIKEY_SETUP_q0Zx'' st
       = Some (Inr (), st\<lparr>fs := [(''/'', Dir 493), (''/tmp'', Dir 1023)]\<rparr>)"
  by (simp add: isdir_def scandir_def child_name_def under_def path_join_def startswith_def
        rmtree_def Let_def)

lemma example_main_interrupted:
  assumes "os_info_cache st = None" and "stdin st = CtrlC # r"
  shows "main example_host st
     = (Inl KeyboardInterrupt,
        st\<lparr>stdin := r, os_info_cache := Some (''linux'', ''#1 SMP''),
            trace := trace st @ [Print RECOMMEND_OS_MSG,
                       Prompt (ask_prompt ''Do your want to continue on current system'')]\<rparr>)"
  by (simp add: main_def init_def example_check_os_interrupted [OF assms])

text \<open>
  The same host with Ctrl+C at the first prompt: the top level catches the interrupt
  inside the \<open>with\<close> block, the generator resumes, and the workspace is removed.
\<close>

lemma script_interrupt_releases_workspace:
  "script (Suc (Suc n)) example_host (example_state [CtrlC])
     = Some (Inr (),
             \<lparr> stdin = [],
               trace = [Print RECOMMEND_OS_MSG,
                        Prompt (ask_prompt ''Do your want to continue on current system''),
                        Print ([CHR 0x0A] @ CL_RED @ ''Interrupted by user'' @ CL_NORM),
                        Print ([CHR 0x0A] @ ''Bye'')],
               fs = [(''/'', Dir 493), (''/tmp'', Dir 1023)],
               world = (), PRE_INSTALL_RUNNED = False,
               os_info_cache = Some (''linux'', ''#1 SMP'') \<rparr>)"
  unfolding script_def tmp_dir_def example_makedirs
  by (simp add: example_main_interrupted TMP_DIR_example example_fs_del print_def
        example_state_def del: fs_del.simps)

text \<open>
  C1. The workspace is not released on every exit path. On a Linux host that is not
  Tails, with standard input at its end, \<open>check_os\<close> asks whether to continue, \<open>input\<close>
  raises \<open>EOFError\<close>, nothing catches it (the top level catches \<open>KeyboardInterrupt\<close>
  only), and the script ends with the exception and with the workspace directory still
  there, with mode 0o700: \<open>fs_del\<close> was never called, whatever the fuel.
\<close>

theorem script_error_keeps_workspace:
  "script fuel example_host (example_state [])
     = Some (Inl EOFError,
             \<lparr> stdin = [],
               trace = [Print RECOMMEND_OS_MSG,
                        Prompt (ask_prompt ''Do your want to continue on current system'')],
               fs = [(''/'', Dir 493), (''/tmp'', Dir 1023),
                     (''/tmp/YUBIKEY_SETUP_q0Zx'', Dir 448)],
               world = (), PRE_INSTALL_RUNNED = False,
               os_info_cache = Some (''linux'', ''#1 SMP'') \<rparr>)
   \<and> TMP_DIR (token example_host) = ''/tmp/YUBIKEY_SETUP_q0Zx''"
proof -
  let ?st1 = "(example_state [])
                  \<lparr>fs := [(''/'', Dir 493), (''/tmp'', Dir 1023),
                           (''/tmp/YUBIKEY_SETUP_q0Zx'', Dir 448)]\<rparr>"
  have c: "check_os example_host ?st1
     = (Inl EOFError,
        ?st1\<lparr>os_info_cache := Some (''linux'', ''#1 SMP''),
            trace := trace ?st1 @ [Print RECOMMEND_OS_MSG,
                       Prompt (ask_prompt ''Do your want to continue on current system'')]\<rparr>)"
    by (rule example_check_os [OF refl]) (simp_all add: example_state_def)
  have m: "main example_host ?st1
     = (Inl EOFError,
        ?st1\<lparr>os_info_cache := Some (''linux'', ''#1 SMP''),
            trace := trace ?st1 @ [Print RECOMMEND_OS_MSG,
                       Prompt (ask_prompt ''Do your want to continue on current system'')]\<rparr>)"
    by (simp add: main_def init_def c)
  have "script fuel example_host (example_state [])
     = Some (Inl EOFError,
        ?st1\<lparr>os_info_cache := Some (''linux'', ''#1 SMP''),
            trace := trace ?st1 @ [Print RECOMMEND_OS_MSG,
                       Prompt (ask_prompt ''Do your want to continue on current system'')]\<rparr>)"
    by (simp add: script_def tmp_dir_def example_makedirs m)
  then show ?thesis by (simp add: example_state_def TMP_DIR_example)
qed

end
